theory Spec2Isabelle
  imports Main "HOL-Library.Sublist" "HOL-Library.AList"
begin

section \<open>Data model\<close>

text \<open>
  The script \<^verbatim>\<open>scripts/parse_leaflet_providers.py\<close> normalises the JSON object that
  describes the leaflet tile providers. The decoded JSON is modelled by the datatype
  \<open>json\<close>: the scalars \<open>null\<close>, booleans, numbers and strings, and objects. A Python
  \<open>dict\<close> keeps insertion order and has no duplicate keys, so an object is an
  association list; \<open>AList.update\<close> is \<^verbatim>\<open>d[k] = v\<close> (overwrite in place, or append a
  new key at the end), \<open>AList.delete\<close> removes a key and \<open>map_of\<close> looks one up.
  Numbers are never inspected by the code and stand for Python numbers as \<open>int\<close>.
  A Python string is a sequence of code points; every code point used below is
  below 256 and is one \<open>char\<close>.
  Following the data model of the specification (field values are strings or numbers,
  \<open>options\<close> and \<open>variants\<close> are mappings) JSON arrays are not part of the model.
\<close>

datatype json =
    JNull
  | JBool bool
  | JNum int
  | JStr string
  | JObj "(string \<times> json) list"

type_synonym dict = "(string \<times> json) list"

text \<open>
  The exceptions the code can raise. \<open>ValueError v\<close> is
  \<^verbatim>\<open>ValueError("Attribution not known: {}".format(value))\<close> with \<open>v\<close> the offending value;
  \<open>KeyError k\<close> is a failed lookup of key \<open>k\<close>; \<open>TypeError\<close> and \<open>AttributeError\<close> are
  the failures of an operation applied to a value of the wrong kind.
\<close>

datatype error =
    KeyError string
  | ValueError json
  | TypeError
  | AttributeError

section \<open>Python primitives\<close>

text \<open>
  \<^verbatim>\<open>s.replace(old, new)\<close> on strings: the occurrences of \<open>old\<close> are found from the
  left and do not overlap; with an empty \<open>old\<close> the text \<open>new\<close> is put before every
  character and at the end.
\<close>

function replace :: "string \<Rightarrow> string \<Rightarrow> string \<Rightarrow> string" where
  "replace old new [] = (if old = [] then new else [])"
| "replace old new (c # cs) =
     (if old = [] then new @ c # replace old new cs
      else if prefix old (c # cs) then new @ replace old new (drop (length old) (c # cs))
      else c # replace old new cs)"
  by pat_completeness auto
termination
  by (relation "measure (\<lambda>(old, new, s). length s)") auto

text \<open>
  \<^verbatim>\<open>needle in value\<close>: a substring test on a string, a key test on a dict, and a
  \<^verbatim>\<open>TypeError\<close> on \<open>None\<close>, booleans and numbers.
\<close>

fun py_in :: "string \<Rightarrow> json \<Rightarrow> error + bool" where
  "py_in needle (JStr s) = Inr (sublist needle s)"
| "py_in needle (JObj d) = Inr (needle \<in> set (map fst d))"
| "py_in needle _ = Inl TypeError"

text \<open>
  \<^verbatim>\<open>value.replace(old, new)\<close>: only strings have the method, and its arguments have to
  be strings.
\<close>

fun py_replace :: "json \<Rightarrow> string \<Rightarrow> json \<Rightarrow> error + json" where
  "py_replace (JStr s) old (JStr new) = Inr (JStr (replace old new s))"
| "py_replace (JStr s) old _ = Inl TypeError"
| "py_replace _ old _ = Inl AttributeError"

text \<open>\<^verbatim>\<open>value[key]\<close> with a string key: only a dict can be indexed by a string.\<close>

fun py_getitem :: "json \<Rightarrow> string \<Rightarrow> error + json" where
  "py_getitem (JObj d) k = (case map_of d k of None \<Rightarrow> Inl (KeyError k) | Some v \<Rightarrow> Inr v)"
| "py_getitem _ k = Inl TypeError"

text \<open>\<^verbatim>\<open>{**a, **b}\<close>: the entries of \<open>a\<close>, overwritten and extended by those of \<open>b\<close>.\<close>

definition dict_merge :: "('k \<times> 'v) list \<Rightarrow> ('k \<times> 'v) list \<Rightarrow> ('k \<times> 'v) list" where
  "dict_merge a b = fold (\<lambda>(k, v). AList.update k v) b a"

text \<open>\<^verbatim>\<open>dict(pairs)\<close>: a later pair overwrites the value of an earlier one with its key.\<close>

definition dict_of :: "('k \<times> 'v) list \<Rightarrow> ('k \<times> 'v) list" where
  "dict_of pairs = dict_merge [] pairs"

section \<open>Field renaming and placeholder resolution: \<open>pythonize_data\<close>\<close>

definition rename_keys :: "(string \<times> string) list" where
  "rename_keys = [(''maxZoom'', ''max_zoom''), (''minZoom'', ''min_zoom'')]"

text \<open>
  The loop over the attribution table with its \<^verbatim>\<open>break\<close> and \<^verbatim>\<open>else\<close>: the table is
  walked once, in order; an entry whose placeholder occurs in the value is replaced, and
  the loop is left as soon as no \<^verbatim>\<open>{attribution.\<close> remains; when the table is exhausted
  the \<^verbatim>\<open>else\<close> branch raises.
\<close>

fun substitute :: "(string \<times> json) list \<Rightarrow> json \<Rightarrow> error + json" where
  "substitute [] value = Inl (ValueError value)"
| "substitute ((placeholder, attr) # rest) value =
     (case py_in placeholder value of
        Inl e \<Rightarrow> Inl e
      | Inr False \<Rightarrow> substitute rest value
      | Inr True \<Rightarrow>
          (case py_replace value placeholder attr of
             Inl e \<Rightarrow> Inl e
           | Inr value' \<Rightarrow>
               (case py_in ''{attribution.'' value' of
                  Inl e \<Rightarrow> Inl e
                | Inr False \<Rightarrow> Inr value'
                | Inr True \<Rightarrow> substitute rest value')))"

text \<open>\<^verbatim>\<open>any(k in value for k in rename_keys)\<close>, which stops at the first hit.\<close>

fun any_in :: "string list \<Rightarrow> json \<Rightarrow> error + bool" where
  "any_in [] value = Inr False"
| "any_in (k # ks) value =
     (case py_in k value of
        Inl e \<Rightarrow> Inl e
      | Inr True \<Rightarrow> Inr True
      | Inr False \<Rightarrow> any_in ks value)"

text \<open>The loop that rewrites \<^verbatim>\<open>{old}\<close> to \<^verbatim>\<open>{new}\<close> in a url for every renamed key.\<close>

fun rename_in_url :: "(string \<times> string) list \<Rightarrow> json \<Rightarrow> error + json" where
  "rename_in_url [] value = Inr value"
| "rename_in_url ((old, new) # rest) value =
     (case py_replace value (''{'' @ old @ ''}'') (JStr (''{'' @ new @ ''}'')) of
        Inl e \<Rightarrow> Inl e
      | Inr value' \<Rightarrow> rename_in_url rest value')"

text \<open>The body of the loop over the items: one \<open>(key, value)\<close> pair of \<open>new_data\<close>.\<close>

definition pythonize_item :: "(string \<times> json) list \<Rightarrow> string \<times> json \<Rightarrow> error + (string \<times> json)" where
  "pythonize_item attributions kv =
     (case kv of (key, value) \<Rightarrow>
       (case (if key = ''attribution'' then py_in ''{attribution.'' value else Inr False) of
          Inl e \<Rightarrow> Inl e
        | Inr True \<Rightarrow>
            (case substitute attributions value of
               Inl e \<Rightarrow> Inl e
             | Inr value' \<Rightarrow> Inr (key, value'))
        | Inr False \<Rightarrow>
            (case map_of rename_keys key of
               Some key' \<Rightarrow> Inr (key', value)
             | None \<Rightarrow>
                 (case (if key = ''url'' then any_in (map fst rename_keys) value else Inr False) of
                    Inl e \<Rightarrow> Inl e
                  | Inr True \<Rightarrow>
                      (case rename_in_url rename_keys value of
                         Inl e \<Rightarrow> Inl e
                       | Inr value' \<Rightarrow> Inr (key, value'))
                  | Inr False \<Rightarrow> Inr (key, value)))))"

fun pythonize_items :: "(string \<times> json) list \<Rightarrow> (string \<times> json) list \<Rightarrow> error + (string \<times> json) list" where
  "pythonize_items attributions [] = Inr []"
| "pythonize_items attributions (kv # items) =
     (case pythonize_item attributions kv of
        Inl e \<Rightarrow> Inl e
      | Inr kv' \<Rightarrow>
          (case pythonize_items attributions items of
             Inl e \<Rightarrow> Inl e
           | Inr new_data \<Rightarrow> Inr (kv' # new_data)))"

text \<open>
  \<open>pythonize_data\<close> reads the global \<^verbatim>\<open>ATTRIBUTIONS\<close>, which \<open>process_data\<close> sets before
  any record is processed; here the table is the first argument.
\<close>

definition pythonize_data :: "(string \<times> json) list \<Rightarrow> dict \<Rightarrow> error + dict" where
  "pythonize_data attributions data =
     (case pythonize_items attributions data of
        Inl e \<Rightarrow> Inl e
      | Inr new_data \<Rightarrow> Inr (dict_of new_data))"

section \<open>Per-provider processing: \<open>process_provider\<close>\<close>

text \<open>
  The variant-specific mapping of one variant definition \<open>var\<close>: a plain string is the
  value of the field \<open>variant\<close>; a dict is copied, its \<open>options\<close> (default \<open>{}\<close>) are
  popped and merged over the rest; any other value has no \<^verbatim>\<open>copy\<close> method.
\<close>

fun variant_keys_of :: "json \<Rightarrow> error + dict" where
  "variant_keys_of (JStr var) = Inr [(''variant'', JStr var)]"
| "variant_keys_of (JObj var) =
     (case map_of var ''options'' of
        None \<Rightarrow> Inr (dict_merge var [])
      | Some (JObj variant_options) \<Rightarrow>
          Inr (dict_merge (AList.delete ''options'' var) variant_options)
      | Some _ \<Rightarrow> Inl TypeError)"
| "variant_keys_of _ = Inl AttributeError"

text \<open>
  The body of the loop over the variants: the record of one variant, made from its
  definition \<open>var\<close> and the merged fields \<open>provider_keys\<close> of the provider.
\<close>

definition process_variant ::
  "(string \<times> json) list \<Rightarrow> string \<Rightarrow> dict \<Rightarrow> string \<Rightarrow> json \<Rightarrow> error + dict" where
  "process_variant attributions name provider_keys variant var =
     (case variant_keys_of var of
        Inl e \<Rightarrow> Inl e
      | Inr variant_keys \<Rightarrow>
          pythonize_data attributions
            (AList.update ''name'' (JStr (name @ ''.'' @ variant))
               (dict_merge provider_keys variant_keys)))"

text \<open>The loop over the variants, with the result dict as accumulator.\<close>

fun process_variants ::
  "(string \<times> json) list \<Rightarrow> string \<Rightarrow> dict \<Rightarrow> (string \<times> json) list \<Rightarrow> dict \<Rightarrow> error + dict" where
  "process_variants attributions name provider_keys [] result = Inr result"
| "process_variants attributions name provider_keys ((variant, var) # rest) result =
     (case process_variant attributions name provider_keys variant var of
        Inl e \<Rightarrow> Inl e
      | Inr variant_keys \<Rightarrow>
          process_variants attributions name provider_keys rest
            (AList.update variant (JObj variant_keys) result))"

text \<open>
  \<open>process_provider\<close>. The entry \<open>data[name]\<close> has to be a dict (other values have no
  \<^verbatim>\<open>copy\<close>), \<open>options\<close> has to be present and a mapping. \<open>variants\<close> that are missing or
  \<open>null\<close> give a single record; a dict of variants gives one record per variant; a
  number or boolean cannot be iterated, and a string is iterated by character, each of
  which fails as an index of the string.
\<close>

definition process_provider :: "(string \<times> json) list \<Rightarrow> dict \<Rightarrow> string \<Rightarrow> error + dict" where
  "process_provider attributions data name =
     (case map_of data name of
        None \<Rightarrow> Inl (KeyError name)
      | Some (JObj entry) \<Rightarrow>
          (let variants = map_of entry ''variants'';
               provider = AList.delete ''variants'' entry
           in case map_of provider ''options'' of
                None \<Rightarrow> Inl (KeyError ''options'')
              | Some (JObj options) \<Rightarrow>
                  (let provider_keys = dict_merge (AList.delete ''options'' provider) options
                   in case variants of
                        None \<Rightarrow>
                          pythonize_data attributions (AList.update ''name'' (JStr name) provider_keys)
                      | Some JNull \<Rightarrow>
                          pythonize_data attributions (AList.update ''name'' (JStr name) provider_keys)
                      | Some (JObj vs) \<Rightarrow> process_variants attributions name provider_keys vs []
                      | Some (JStr s) \<Rightarrow> (if s = [] then Inr [] else Inl TypeError)
                      | Some _ \<Rightarrow> Inl TypeError)
              | Some _ \<Rightarrow> Inl TypeError)
      | Some _ \<Rightarrow> Inl AttributeError)"

section \<open>The whole catalog: \<open>process_data\<close>\<close>

definition attribution_of :: "dict \<Rightarrow> string \<Rightarrow> error + json" where
  "attribution_of data name =
     (case py_getitem (JObj data) name of
        Inl e \<Rightarrow> Inl e
      | Inr provider \<Rightarrow>
          (case py_getitem provider ''options'' of
             Inl e \<Rightarrow> Inl e
           | Inr options \<Rightarrow> py_getitem options ''attribution''))"

fun process_providers :: "(string \<times> json) list \<Rightarrow> dict \<Rightarrow> (string \<times> json) list \<Rightarrow> dict \<Rightarrow> error + dict" where
  "process_providers attributions data [] result = Inr result"
| "process_providers attributions data ((provider, entry) # rest) result =
     (case process_provider attributions data provider of
        Inl e \<Rightarrow> Inl e
      | Inr r \<Rightarrow>
          process_providers attributions data rest (AList.update provider (JObj r) result))"

definition process_data :: "dict \<Rightarrow> error + dict" where
  "process_data data =
     (case attribution_of data ''OpenStreetMap'' of
        Inl e \<Rightarrow> Inl e
      | Inr osm \<Rightarrow>
          (case attribution_of data ''Esri'' of
             Inl e \<Rightarrow> Inl e
           | Inr esri \<Rightarrow>
               (case attribution_of data ''OpenMapSurfer'' of
                  Inl e \<Rightarrow> Inl e
                | Inr oms \<Rightarrow>
                    process_providers
                      [(''{attribution.OpenStreetMap}'', osm),
                       (''{attribution.Esri}'', esri),
                       (''{attribution.OpenMapSurfer}'', oms)]
                      data data [])))"

section \<open>The same code on a store of objects\<close>

text \<open>
  Python dicts are objects: a variable holds a reference, \<^verbatim>\<open>copy\<close> makes a new object
  with the same entries, and \<^verbatim>\<open>pop\<close> and \<^verbatim>\<open>d[k] = v\<close> change the object they are
  applied to. To say which objects a call changes, the code is modelled a second time on
  a store: the list of all dict objects, an object's address being its index. A value
  is a scalar or the address of a dict. A new object gets the next free address.
\<close>

datatype pval = PNone | PBool bool | PNum int | PStr string | PRef nat

type_synonym obj = "(string \<times> pval) list"

type_synonym store = "obj list"

definition alloc :: "store \<Rightarrow> obj \<Rightarrow> nat \<times> store" where
  "alloc h d = (length h, h @ [d])"

text \<open>\<^verbatim>\<open>needle in value\<close>, \<^verbatim>\<open>value.replace(old, new)\<close> and \<^verbatim>\<open>value[key]\<close> on the store.\<close>

fun st_in :: "store \<Rightarrow> string \<Rightarrow> pval \<Rightarrow> error + bool" where
  "st_in h needle (PStr s) = Inr (sublist needle s)"
| "st_in h needle (PRef a) = Inr (needle \<in> set (map fst (h ! a)))"
| "st_in h needle _ = Inl TypeError"

fun st_replace :: "pval \<Rightarrow> string \<Rightarrow> pval \<Rightarrow> error + pval" where
  "st_replace (PStr s) old (PStr new) = Inr (PStr (replace old new s))"
| "st_replace (PStr s) old _ = Inl TypeError"
| "st_replace _ old _ = Inl AttributeError"

fun st_getitem :: "store \<Rightarrow> pval \<Rightarrow> string \<Rightarrow> error + pval" where
  "st_getitem h (PRef a) k = (case map_of (h ! a) k of None \<Rightarrow> Inl (KeyError k) | Some v \<Rightarrow> Inr v)"
| "st_getitem h _ k = Inl TypeError"

text \<open>
  \<open>pythonize_data\<close> on the store. The function reads its argument and the table, and
  the dict it returns is a new object. The error of an unknown attribution carries the
  value as \<open>shown\<close> gives it: a scalar as it is, and \<open>null\<close> for a dict.
\<close>

fun shown :: "pval \<Rightarrow> json" where
  "shown PNone = JNull"
| "shown (PBool b) = JBool b"
| "shown (PNum n) = JNum n"
| "shown (PStr s) = JStr s"
| "shown (PRef a) = JNull"

fun st_substitute :: "store \<Rightarrow> (string \<times> pval) list \<Rightarrow> pval \<Rightarrow> error + pval" where
  "st_substitute h [] value = Inl (ValueError (shown value))"
| "st_substitute h ((placeholder, attr) # rest) value =
     (case st_in h placeholder value of
        Inl e \<Rightarrow> Inl e
      | Inr False \<Rightarrow> st_substitute h rest value
      | Inr True \<Rightarrow>
          (case st_replace value placeholder attr of
             Inl e \<Rightarrow> Inl e
           | Inr value' \<Rightarrow>
               (case st_in h ''{attribution.'' value' of
                  Inl e \<Rightarrow> Inl e
                | Inr False \<Rightarrow> Inr value'
                | Inr True \<Rightarrow> st_substitute h rest value')))"

fun st_any_in :: "store \<Rightarrow> string list \<Rightarrow> pval \<Rightarrow> error + bool" where
  "st_any_in h [] value = Inr False"
| "st_any_in h (k # ks) value =
     (case st_in h k value of
        Inl e \<Rightarrow> Inl e
      | Inr True \<Rightarrow> Inr True
      | Inr False \<Rightarrow> st_any_in h ks value)"

fun st_rename_in_url :: "(string \<times> string) list \<Rightarrow> pval \<Rightarrow> error + pval" where
  "st_rename_in_url [] value = Inr value"
| "st_rename_in_url ((old, new) # rest) value =
     (case st_replace value (''{'' @ old @ ''}'') (PStr (''{'' @ new @ ''}'')) of
        Inl e \<Rightarrow> Inl e
      | Inr value' \<Rightarrow> st_rename_in_url rest value')"

definition st_pythonize_item ::
  "store \<Rightarrow> (string \<times> pval) list \<Rightarrow> string \<times> pval \<Rightarrow> error + (string \<times> pval)" where
  "st_pythonize_item h attributions kv =
     (case kv of (key, value) \<Rightarrow>
       (case (if key = ''attribution'' then st_in h ''{attribution.'' value else Inr False) of
          Inl e \<Rightarrow> Inl e
        | Inr True \<Rightarrow>
            (case st_substitute h attributions value of
               Inl e \<Rightarrow> Inl e
             | Inr value' \<Rightarrow> Inr (key, value'))
        | Inr False \<Rightarrow>
            (case map_of rename_keys key of
               Some key' \<Rightarrow> Inr (key', value)
             | None \<Rightarrow>
                 (case (if key = ''url'' then st_any_in h (map fst rename_keys) value else Inr False) of
                    Inl e \<Rightarrow> Inl e
                  | Inr True \<Rightarrow>
                      (case st_rename_in_url rename_keys value of
                         Inl e \<Rightarrow> Inl e
                       | Inr value' \<Rightarrow> Inr (key, value'))
                  | Inr False \<Rightarrow> Inr (key, value)))))"

fun st_pythonize_items ::
  "store \<Rightarrow> (string \<times> pval) list \<Rightarrow> obj \<Rightarrow> error + obj" where
  "st_pythonize_items h attributions [] = Inr []"
| "st_pythonize_items h attributions (kv # items) =
     (case st_pythonize_item h attributions kv of
        Inl e \<Rightarrow> Inl e
      | Inr kv' \<Rightarrow>
          (case st_pythonize_items h attributions items of
             Inl e \<Rightarrow> Inl e
           | Inr new_data \<Rightarrow> Inr (kv' # new_data)))"

definition st_pythonize_data ::
  "store \<Rightarrow> (string \<times> pval) list \<Rightarrow> nat \<Rightarrow> (error + nat) \<times> store" where
  "st_pythonize_data h attributions data =
     (case st_pythonize_items h attributions (h ! data) of
        Inl e \<Rightarrow> (Inl e, h)
      | Inr new_data \<Rightarrow> (case alloc h (dict_of new_data) of (r, h') \<Rightarrow> (Inr r, h')))"

text \<open>
  The body of the loop over the variants on the store. A plain string gives the new
  dict \<^verbatim>\<open>{"variant": var}\<close>. A dict is copied; \<^verbatim>\<open>pop("options", {})\<close> makes the
  default \<^verbatim>\<open>{}\<close>, a new object, and changes the copy; each merge makes a new object,
  and \<open>name\<close> is stored into the last of them.
\<close>

definition st_variant_keys :: "store \<Rightarrow> pval \<Rightarrow> (error + nat) \<times> store" where
  "st_variant_keys h var =
     (case var of
        PStr s \<Rightarrow> (case alloc h [(''variant'', PStr s)] of (vk, h1) \<Rightarrow> (Inr vk, h1))
      | PRef v \<Rightarrow>
          (case alloc h (h ! v) of (variant_keys, h1) \<Rightarrow>
           case alloc h1 [] of (dflt, h2) \<Rightarrow>
             let variant_options =
                   (case map_of (h2 ! variant_keys) ''options'' of
                      None \<Rightarrow> PRef dflt | Some x \<Rightarrow> x);
                 h3 = h2[variant_keys := AList.delete ''options'' (h2 ! variant_keys)]
             in (case variant_options of
                   PRef vo \<Rightarrow>
                     (case alloc h3 (dict_merge (h3 ! variant_keys) (h3 ! vo)) of
                        (vk, h4) \<Rightarrow> (Inr vk, h4))
                 | _ \<Rightarrow> (Inl TypeError, h3)))
      | _ \<Rightarrow> (Inl AttributeError, h))"

definition st_process_variant ::
  "store \<Rightarrow> (string \<times> pval) list \<Rightarrow> string \<Rightarrow> nat \<Rightarrow> string \<Rightarrow> pval \<Rightarrow> (error + nat) \<times> store" where
  "st_process_variant h attributions name provider_keys variant var =
     (case st_variant_keys h var of
        (Inl e, h1) \<Rightarrow> (Inl e, h1)
      | (Inr variant_keys, h1) \<Rightarrow>
          (case alloc h1 (dict_merge (h1 ! provider_keys) (h1 ! variant_keys)) of
             (merged, h2) \<Rightarrow>
               st_pythonize_data
                 (h2[merged := AList.update ''name'' (PStr (name @ ''.'' @ variant)) (h2 ! merged)])
                 attributions merged))"

fun st_process_variants ::
  "store \<Rightarrow> (string \<times> pval) list \<Rightarrow> string \<Rightarrow> nat \<Rightarrow> nat \<Rightarrow> string list \<Rightarrow> nat \<Rightarrow>
   (error + nat) \<times> store" where
  "st_process_variants h attributions name provider_keys variants [] result = (Inr result, h)"
| "st_process_variants h attributions name provider_keys variants (variant # rest) result =
     (case st_getitem h (PRef variants) variant of
        Inl e \<Rightarrow> (Inl e, h)
      | Inr var \<Rightarrow>
          (case st_process_variant h attributions name provider_keys variant var of
             (Inl e, h1) \<Rightarrow> (Inl e, h1)
           | (Inr variant_keys, h1) \<Rightarrow>
               st_process_variants
                 (h1[result := AList.update variant (PRef variant_keys) (h1 ! result)])
                 attributions name provider_keys variants rest result))"

text \<open>
  \<open>process_provider\<close> on the store: the entry is copied, \<open>variants\<close> and \<open>options\<close> are
  popped from the copy, and the merge with the options is a new object, into which
  \<open>name\<close> is stored when there are no variants.
\<close>

definition st_process_provider ::
  "store \<Rightarrow> (string \<times> pval) list \<Rightarrow> nat \<Rightarrow> string \<Rightarrow> (error + nat) \<times> store" where
  "st_process_provider h attributions data name =
     (case map_of (h ! data) name of
        None \<Rightarrow> (Inl (KeyError name), h)
      | Some (PRef entry) \<Rightarrow>
          (case alloc h (h ! entry) of (provider, h1) \<Rightarrow>
             let variants = map_of (h1 ! provider) ''variants'';
                 h2 = h1[provider := AList.delete ''variants'' (h1 ! provider)]
             in (case map_of (h2 ! provider) ''options'' of
                   None \<Rightarrow> (Inl (KeyError ''options''), h2)
                 | Some options \<Rightarrow>
                     let h3 = h2[provider := AList.delete ''options'' (h2 ! provider)]
                     in (case options of
                           PRef opts \<Rightarrow>
                             (case alloc h3 (dict_merge (h3 ! provider) (h3 ! opts)) of
                                (provider_keys, h4) \<Rightarrow>
                                  let named = h4[provider_keys :=
                                        AList.update ''name'' (PStr name) (h4 ! provider_keys)]
                                  in (case variants of
                                        None \<Rightarrow> st_pythonize_data named attributions provider_keys
                                      | Some PNone \<Rightarrow> st_pythonize_data named attributions provider_keys
                                      | Some (PRef vs) \<Rightarrow>
                                          (case alloc h4 [] of (result, h5) \<Rightarrow>
                                             st_process_variants h5 attributions name provider_keys vs
                                               (map fst (h5 ! vs)) result)
                                      | Some (PStr s) \<Rightarrow>
                                          (case alloc h4 [] of (result, h5) \<Rightarrow>
                                             if s = [] then (Inr result, h5) else (Inl TypeError, h5))
                                      | Some _ \<Rightarrow>
                                          (case alloc h4 [] of (result, h5) \<Rightarrow> (Inl TypeError, h5))))
                         | _ \<Rightarrow> (Inl TypeError, h3))))
      | Some _ \<Rightarrow> (Inl AttributeError, h))"

definition st_attribution_of :: "store \<Rightarrow> nat \<Rightarrow> string \<Rightarrow> error + pval" where
  "st_attribution_of h data name =
     (case st_getitem h (PRef data) name of
        Inl e \<Rightarrow> Inl e
      | Inr provider \<Rightarrow>
          (case st_getitem h provider ''options'' of
             Inl e \<Rightarrow> Inl e
           | Inr options \<Rightarrow> st_getitem h options ''attribution''))"

fun st_process_providers ::
  "store \<Rightarrow> (string \<times> pval) list \<Rightarrow> nat \<Rightarrow> string list \<Rightarrow> nat \<Rightarrow> (error + nat) \<times> store" where
  "st_process_providers h attributions data [] result = (Inr result, h)"
| "st_process_providers h attributions data (provider # rest) result =
     (case st_process_provider h attributions data provider of
        (Inl e, h1) \<Rightarrow> (Inl e, h1)
      | (Inr r, h1) \<Rightarrow>
          st_process_providers (h1[result := AList.update provider (PRef r) (h1 ! result)])
            attributions data rest result)"

definition st_process_data :: "store \<Rightarrow> nat \<Rightarrow> (error + nat) \<times> store" where
  "st_process_data h data =
     (case st_attribution_of h data ''OpenStreetMap'' of
        Inl e \<Rightarrow> (Inl e, h)
      | Inr osm \<Rightarrow>
          (case st_attribution_of h data ''Esri'' of
             Inl e \<Rightarrow> (Inl e, h)
           | Inr esri \<Rightarrow>
               (case st_attribution_of h data ''OpenMapSurfer'' of
                  Inl e \<Rightarrow> (Inl e, h)
                | Inr oms \<Rightarrow>
                    (case alloc h [] of (result, h1) \<Rightarrow>
                       st_process_providers h1
                         [(''{attribution.OpenStreetMap}'', osm),
                          (''{attribution.Esri}'', esri),
                          (''{attribution.OpenMapSurfer}'', oms)]
                         data (map fst (h1 ! data)) result))))"

text \<open>
  The generated class \<^verbatim>\<open>TileProvider\<close>: calling a record with keyword arguments makes
  a copy, \<^verbatim>\<open>TileProvider(self)\<close>, updates the copy and returns it. The method is
  \<^verbatim>\<open>def __call__(self, **kwargs)\<close>, and the record itself is bound to \<^verbatim>\<open>self\<close>: a keyword
  argument named \<^verbatim>\<open>self\<close> gives that parameter a second value, and the call raises
  \<^verbatim>\<open>TypeError\<close> before the body runs. Every other keyword is collected in \<^verbatim>\<open>kwargs\<close>.
\<close>

definition TileProvider_call :: "store \<Rightarrow> nat \<Rightarrow> obj \<Rightarrow> (error + nat) \<times> store" where
  "TileProvider_call h self kwargs =
     (if ''self'' \<in> set (map fst kwargs) then (Inl TypeError, h)
      else case alloc h (h ! self) of
             (new, h1) \<Rightarrow> (Inr new, h1[new := dict_merge (h1 ! new) kwargs]))"

text \<open>
  The value that a store value stands for, followed through at most \<open>n\<close> references:
  it relates a store to the values of the first model.
\<close>

fun json_of :: "nat \<Rightarrow> store \<Rightarrow> pval \<Rightarrow> json" where
  "json_of n h PNone = JNull"
| "json_of n h (PBool b) = JBool b"
| "json_of n h (PNum i) = JNum i"
| "json_of n h (PStr s) = JStr s"
| "json_of 0 h (PRef a) = JNull"
| "json_of (Suc n) h (PRef a) = JObj (map (\<lambda>kv. (fst kv, json_of n h (snd kv))) (h ! a))"

section \<open>Auxiliary notions used in the statements\<close>

text \<open>
  A placeholder pattern: it opens with a brace and has no further opening brace. The
  attribution tokens \<^verbatim>\<open>{attribution.Name}\<close> and the url tokens \<^verbatim>\<open>{maxZoom}\<close> and
  \<^verbatim>\<open>{minZoom}\<close> are of this kind.
\<close>

definition opens :: "string \<Rightarrow> bool" where
  "opens p \<longleftrightarrow> (\<exists>t. p = CHR ''{'' # t \<and> CHR ''{'' \<notin> set t)"

text \<open>A text without braces, as the name inside a placeholder token is.\<close>

definition brace_free :: "string \<Rightarrow> bool" where
  "brace_free s \<longleftrightarrow> CHR ''{'' \<notin> set s \<and> CHR ''}'' \<notin> set s"

text \<open>The attribution placeholder token \<^verbatim>\<open>{attribution.Name}\<close> of a provider name.\<close>

definition placeholder :: "string \<Rightarrow> string" where
  "placeholder name = ''{attribution.'' @ name @ ''}''"

text \<open>A url placeholder token \<^verbatim>\<open>{name}\<close>, such as \<^verbatim>\<open>{z}\<close> or \<^verbatim>\<open>{maxZoom}\<close>.\<close>

definition token :: "string \<Rightarrow> string" where
  "token name = CHR ''{'' # name @ ''}''"


definition named_table :: "(string \<times> string) list \<Rightarrow> (string \<times> json) list" where
  "named_table entries = map (\<lambda>(name, attr). (placeholder name, JStr attr)) entries"





text \<open>The canonical name of a key: the renamed key when it is renameable.\<close>

definition canonical_key :: "string \<Rightarrow> string" where
  "canonical_key key = (case map_of rename_keys key of Some key' \<Rightarrow> key' | None \<Rightarrow> key)"

text \<open>
  The url rewrite as the specification words it: every embedded token \<^verbatim>\<open>{maxZoom}\<close>
  becomes \<^verbatim>\<open>{max_zoom}\<close>, every \<^verbatim>\<open>{minZoom}\<close> becomes \<^verbatim>\<open>{min_zoom}\<close>, and every other
  character is copied. It is compared below with what the code does, which is two
  successive calls of \<^verbatim>\<open>replace\<close>.
\<close>

function rewrite_placeholders :: "string \<Rightarrow> string" where
  "rewrite_placeholders [] = []"
| "rewrite_placeholders (c # cs) =
     (if prefix ''{maxZoom}'' (c # cs) then ''{max_zoom}'' @ rewrite_placeholders (drop 9 (c # cs))
      else if prefix ''{minZoom}'' (c # cs) then ''{min_zoom}'' @ rewrite_placeholders (drop 9 (c # cs))
      else c # rewrite_placeholders cs)"
  by pat_completeness auto
termination
  by (relation "measure length") auto

text \<open>
  A well-formed dict has no key twice, and so have the dicts nested in it. Every value
  that \<^verbatim>\<open>json.loads\<close> returns is well-formed.
\<close>

fun wf_json :: "json \<Rightarrow> bool" where
  "wf_json (JObj d) = (distinct (map fst d) \<and> (\<forall>kv \<in> set d. wf_json (snd kv)))"
| "wf_json _ = True"

text \<open>
  A provider entry lacks variants when it has no key \<open>variants\<close> or the value \<open>null\<close>
  (\<^verbatim>\<open>None\<close>) under it: \<^verbatim>\<open>provider.pop("variants", None)\<close> is \<^verbatim>\<open>None\<close> in both cases.
\<close>

definition lacks_variants :: "dict \<Rightarrow> bool" where
  "lacks_variants entry \<longleftrightarrow> map_of entry ''variants'' = None \<or> map_of entry ''variants'' = Some JNull"

text \<open>The mapping \<open>provider_keys\<close> of an entry: its remaining fields merged with its options.\<close>

definition base_keys :: "dict \<Rightarrow> dict \<Rightarrow> dict" where
  "base_keys entry options =
     dict_merge (AList.delete ''options'' (AList.delete ''variants'' entry)) options"


text \<open>
  The same mapping as the specification words it, field by field: a field of the options
  wins over a top-level field of the entry, whose own \<open>variants\<close> and \<open>options\<close> are not
  fields of the record.
\<close>

definition base_fields :: "dict \<Rightarrow> dict \<Rightarrow> string \<Rightarrow> json option" where
  "base_fields entry options k =
     (case map_of options k of
        Some v \<Rightarrow> Some v
      | None \<Rightarrow> if k = ''variants'' \<or> k = ''options'' then None else map_of entry k)"

text \<open>
  The variant-specific mapping of a variant definition, field by field: a plain string
  is the field \<open>variant\<close>; of a mapping, a field of its nested \<open>options\<close> wins over a field
  of the mapping itself, and the \<open>options\<close> are not a field; a mapping without \<open>options\<close>
  gives its own fields.
\<close>

fun variant_fields :: "json \<Rightarrow> string \<Rightarrow> json option" where
  "variant_fields (JStr s) k = (if k = ''variant'' then Some (JStr s) else None)"
| "variant_fields (JObj d) k =
     (case map_of d ''options'' of
        Some (JObj variant_options) \<Rightarrow>
          (case map_of variant_options k of
             Some v \<Rightarrow> Some v
           | None \<Rightarrow> if k = ''options'' then None else map_of d k)
      | _ \<Rightarrow> map_of d k)"
| "variant_fields _ k = None"

text \<open>
  The variant-specific mapping merged over the base mapping of the provider: a field of
  the variant wins over a field of the provider.
\<close>

definition merged_fields :: "dict \<Rightarrow> dict \<Rightarrow> json \<Rightarrow> string \<Rightarrow> json option" where
  "merged_fields entry options var k =
     (case variant_fields var k of
        Some v \<Rightarrow> Some v
      | None \<Rightarrow> base_fields entry options k)"

text \<open>
  The keys that field renaming passes through with their values: not \<open>attribution\<close> or
  \<open>url\<close>, whose values may be rewritten, not a renameable key or its canonical name,
  and not \<open>name\<close>, which per-provider processing assigns.
\<close>

definition plain_key :: "string \<Rightarrow> bool" where
  "plain_key k \<longleftrightarrow>
     k \<notin> {''attribution'', ''url'', ''name'', ''maxZoom'', ''minZoom'', ''max_zoom'', ''min_zoom''}"

text \<open>
  What every record of a normalized catalog satisfies: it has a \<open>name\<close>, and an
  attribution string in it has no attribution placeholder left.
\<close>

definition resolved_record :: "dict \<Rightarrow> bool" where
  "resolved_record record \<longleftrightarrow>
     ''name'' \<in> fst ` set record
     \<and> (\<forall>s. map_of record ''attribution'' = Some (JStr s) \<longrightarrow> \<not> sublist ''{attribution.'' s)"

section \<open>Example inputs\<close>

text \<open>The one-provider catalog of the round-trip example, and the record it names.\<close>

definition c1_raw :: dict where
  "c1_raw =
     [(''OpenStreetMap'',
       JObj [(''url'', JStr ''http://tile/{z}/{x}/{y}.png''),
             (''options'', JObj [(''maxZoom'', JNum 19),
                                 (''attribution'', JStr (CHR 0xA9 # '' OSM''))])])]"

definition c1_expected :: dict where
  "c1_expected =
     [(''name'', JStr ''OpenStreetMap''),
      (''url'', JStr ''http://tile/{z}/{x}/{y}.png''),
      (''max_zoom'', JNum 19),
      (''attribution'', JStr (CHR 0xA9 # '' OSM''))]"

text \<open>The same record in the order in which the code inserts its keys.\<close>

definition c1_record :: dict where
  "c1_record =
     [(''url'', JStr ''http://tile/{z}/{x}/{y}.png''),
      (''max_zoom'', JNum 19),
      (''attribution'', JStr (CHR 0xA9 # '' OSM'')),
      (''name'', JStr ''OpenStreetMap'')]"

text \<open>Entries for the two other providers from which the attribution table is built.\<close>

definition c1_others :: dict where
  "c1_others =
     [(''Esri'',
       JObj [(''url'', JStr ''http://esri/{z}/{y}/{x}''),
             (''options'', JObj [(''attribution'', JStr ''Tiles Esri'')])]),
      (''OpenMapSurfer'',
       JObj [(''url'', JStr ''http://oms/{z}/{x}/{y}''),
             (''options'', JObj [(''attribution'', JStr ''Imagery GIScience'')])])]"

text \<open>
  A table of three attributions, a catalog whose provider \<open>Hydda\<close> has the unregistered
  placeholder \<^verbatim>\<open>{attribution.Unknown}\<close>, and the record that per-provider processing hands
  to field renaming for that provider.
\<close>

definition c2_entries :: "(string \<times> string) list" where
  "c2_entries = [(''OpenStreetMap'', CHR 0xA9 # '' OSM''), (''Esri'', ''Tiles Esri''),
                 (''OpenMapSurfer'', ''Imagery GIScience'')]"

definition c2_record :: dict where
  "c2_record = [(''url'', JStr ''http://hydda/{z}/{x}/{y}''),
                (''maxZoom'', JNum 18),
                (''attribution'', JStr ''Map {attribution.Unknown}, {attribution.Esri}''),
                (''name'', JStr ''Hydda'')]"

definition c2_catalog :: dict where
  "c2_catalog =
     [(''OpenStreetMap'',
       JObj [(''url'', JStr ''http://tile/{z}/{x}/{y}.png''),
             (''options'', JObj [(''attribution'', JStr (CHR 0xA9 # '' OSM''))])]),
      (''Esri'',
       JObj [(''url'', JStr ''http://esri/{z}/{y}/{x}''),
             (''options'', JObj [(''attribution'', JStr ''Tiles Esri'')])]),
      (''OpenMapSurfer'',
       JObj [(''url'', JStr ''http://oms/{z}/{x}/{y}''),
             (''options'', JObj [(''attribution'', JStr ''Imagery GIScience'')])]),
      (''Hydda'',
       JObj [(''url'', JStr ''http://hydda/{z}/{x}/{y}''),
             (''options'',
              JObj [(''maxZoom'', JNum 18),
                    (''attribution'', JStr ''Map {attribution.Unknown}, {attribution.Esri}'')])])]"







text \<open>A record before and after field renaming.\<close>

definition c6_record :: dict where
  "c6_record = [(''url'', JStr ''http://tile/{maxZoom}/{z}/{x}/{y}.png''),
                (''attribution'', JStr ''Map {attribution.Esri}''),
                (''maxZoom'', JNum 18),
                (''minZoom'', JNum 1)]"

definition c6_renamed :: dict where
  "c6_renamed = [(''url'', JStr ''http://tile/{max_zoom}/{z}/{x}/{y}.png''),
                 (''attribution'', JStr ''Map Tiles Esri''),
                 (''max_zoom'', JNum 18),
                 (''min_zoom'', JNum 1)]"

text \<open>A record whose url embeds both renameable keys among other placeholders.\<close>

definition c7_record :: dict where
  "c7_record = [(''url'', JStr ''https://gibs/{variant}/{maxZoom}/{z}/{y}/{x}.{format}?min={minZoom}''),
                (''maxZoom'', JNum 9)]"

text \<open>
  A provider whose options have a key \<open>options\<close> of their own, and a provider entry
  without variants whose options and top-level fields share the key \<open>subdomains\<close>.
\<close>

definition c5_raw :: dict where
  "c5_raw = [(''Stamen'',
              JObj [(''url'', JStr ''http://stamen/{z}/{x}/{y}.png''),
                    (''options'', JObj [(''options'', JStr ''x''), (''maxZoom'', JNum 20)])])]"

definition c5_entry :: dict where
  "c5_entry = [(''url'', JStr ''http://stamen/{z}/{x}/{y}.png''),
               (''subdomains'', JStr ''abcd''),
               (''options'', JObj [(''maxZoom'', JNum 20), (''subdomains'', JStr ''ab'')])]"

text \<open>
  A provider entry with a plain-string variant and a variant with fields and options of
  its own, and the group of records that per-provider processing makes of it under the
  provider name \<open>Thunder\<close>.
\<close>

definition c4_entry :: dict where
  "c4_entry = [(''url'', JStr ''http://tile/{variant}/{z}/{x}/{y}.png''),
               (''options'', JObj [(''maxZoom'', JNum 18), (''variant'', JStr ''base'')]),
               (''variants'',
                JObj [(''Roads'', JStr ''roads''),
                      (''Night'', JObj [(''url'', JStr ''http://night/{z}/{x}/{y}.png''),
                                        (''options'', JObj [(''maxZoom'', JNum 8)])])])]"

definition c4_result :: dict where
  "c4_result =
     [(''Roads'', JObj [(''url'', JStr ''http://tile/{variant}/{z}/{x}/{y}.png''),
                        (''max_zoom'', JNum 18), (''variant'', JStr ''roads''),
                        (''name'', JStr ''Thunder.Roads'')]),
      (''Night'', JObj [(''url'', JStr ''http://night/{z}/{x}/{y}.png''),
                        (''max_zoom'', JNum 8), (''variant'', JStr ''base''),
                        (''name'', JStr ''Thunder.Night'')])]"

text \<open>
  A provider entry with three variants: a plain string, a mapping with options, and a
  mapping without options that has a url and a \<open>maxZoom\<close> of its own; and the group of
  records that per-provider processing makes of it under the provider name \<open>Stadia\<close>.
\<close>

definition c4_group :: dict where
  "c4_group = [(''url'', JStr ''http://tile/{variant}/{z}/{x}/{y}.png''),
               (''options'', JObj [(''maxZoom'', JNum 18), (''variant'', JStr ''base''),
                                   (''attribution'', JStr ''Map {attribution.OpenStreetMap}'')]),
               (''variants'',
                JObj [(''Roads'', JStr ''roads''),
                      (''Night'', JObj [(''url'', JStr ''http://night/{z}/{x}/{y}.png''),
                                        (''options'', JObj [(''maxZoom'', JNum 8),
                                                            (''url'', JStr ''http://dark/{z}'')])]),
                      (''DE'', JObj [(''url'', JStr ''http://de/{maxZoom}/{z}''),
                                     (''maxZoom'', JNum 5)])])]"

definition c4_group_result :: dict where
  "c4_group_result =
     [(''Roads'', JObj [(''url'', JStr ''http://tile/{variant}/{z}/{x}/{y}.png''),
                        (''max_zoom'', JNum 18), (''variant'', JStr ''roads''),
                        (''attribution'', JStr (''Map '' @ CHR 0xA9 # '' OSM'')),
                        (''name'', JStr ''Stadia.Roads'')]),
      (''Night'', JObj [(''url'', JStr ''http://dark/{z}''),
                        (''max_zoom'', JNum 8), (''variant'', JStr ''base''),
                        (''attribution'', JStr (''Map '' @ CHR 0xA9 # '' OSM'')),
                        (''name'', JStr ''Stadia.Night'')]),
      (''DE'', JObj [(''url'', JStr ''http://de/{max_zoom}/{z}''),
                     (''max_zoom'', JNum 5), (''variant'', JStr ''base''),
                     (''attribution'', JStr (''Map '' @ CHR 0xA9 # '' OSM'')),
                     (''name'', JStr ''Stadia.DE'')])]"

text \<open>A catalog in which the entry of \<open>Esri\<close> has no url.\<close>

definition c8_catalog :: dict where
  "c8_catalog =
     [(''OpenStreetMap'',
       JObj [(''url'', JStr ''http://tile/{z}/{x}/{y}.png''),
             (''options'', JObj [(''attribution'', JStr (CHR 0xA9 # '' OSM''))])]),
      (''Esri'',
       JObj [(''options'', JObj [(''attribution'', JStr ''Tiles Esri'')])]),
      (''OpenMapSurfer'',
       JObj [(''url'', JStr ''http://oms/{z}/{x}/{y}''),
             (''options'', JObj [(''attribution'', JStr ''Imagery GIScience'')])])]"

text \<open>
  A store that holds a catalog: object 0 is the catalog, objects 1 to 8 are the entries of
  four providers and their options, object 9 holds the variants of the last provider,
  and objects 10 and 11 are a variant definition and its options.
\<close>

definition c10_store :: store where
  "c10_store =
     [[(''OpenStreetMap'', PRef 1), (''Esri'', PRef 3), (''OpenMapSurfer'', PRef 5), (''Thunder'', PRef 7)],
      [(''url'', PStr ''http://tile/{z}/{x}/{y}.png''), (''options'', PRef 2)],
      [(''maxZoom'', PNum 19), (''attribution'', PStr (CHR 0xA9 # '' OSM''))],
      [(''url'', PStr ''http://esri/{z}/{y}/{x}''), (''options'', PRef 4)],
      [(''attribution'', PStr ''Tiles Esri'')],
      [(''url'', PStr ''http://oms/{z}/{x}/{y}''), (''options'', PRef 6)],
      [(''attribution'', PStr ''Imagery GIScience'')],
      [(''url'', PStr ''http://tile/{variant}/{z}/{x}/{y}.png''), (''options'', PRef 8), (''variants'', PRef 9)],
      [(''maxZoom'', PNum 18), (''variant'', PStr ''base'')],
      [(''Roads'', PStr ''roads''), (''Night'', PRef 10)],
      [(''url'', PStr ''http://night/{z}/{x}/{y}.png''), (''options'', PRef 11)],
      [(''maxZoom'', PNum 8)]]"

text \<open>
  A store with one rendered record, keyword arguments for a call of it, and keyword
  arguments one of which is named \<open>self\<close>.
\<close>

definition c9_store :: store where
  "c9_store = [[(''url'', PStr ''http://tile/{z}/{x}/{y}.png''), (''max_zoom'', PNum 19),
                (''name'', PStr ''OpenStreetMap'')]]"

definition c9_kwargs :: obj where
  "c9_kwargs = [(''max_zoom'', PNum 10), (''apikey'', PStr ''k'')]"

definition c9_self_kwargs :: obj where
  "c9_self_kwargs = [(''max_zoom'', PNum 10), (''self'', PStr ''k'')]"

section \<open>Properties of dicts\<close>

lemma update_fresh: "k \<notin> fst ` set al \<Longrightarrow> AList.update k v al = al @ [(k, v)]"
  by (induction al) auto

lemma fold_update_keys:
  "fst ` set (fold (\<lambda>(k, v). AList.update k v) b a) = fst ` set a \<union> fst ` set b"
proof (induction b arbitrary: a)
  case Nil
  then show ?case by simp
next
  case (Cons kv b)
  obtain k v where kv: "kv = (k, v)" by (cases kv)
  show ?case unfolding kv by (simp add: Cons.IH AList.dom_update Un_ac)
qed

lemma keys_dict_merge: "fst ` set (dict_merge a b) = fst ` set a \<union> fst ` set b"
  unfolding dict_merge_def by (rule fold_update_keys)

lemma fold_update_distinct:
  "distinct (map fst a) \<Longrightarrow> distinct (map fst (fold (\<lambda>(k, v). AList.update k v) b a))"
  by (induction b arbitrary: a) (auto simp: AList.distinct_update)

lemma distinct_dict_merge: "distinct (map fst a) \<Longrightarrow> distinct (map fst (dict_merge a b))"
  unfolding dict_merge_def by (rule fold_update_distinct)

lemma distinct_dict_of: "distinct (map fst (dict_of xs))"
  unfolding dict_of_def by (simp add: distinct_dict_merge)

lemma fold_update_map_of:
  "map_of (fold (\<lambda>(k, v). AList.update k v) b a) = map_of a ++ map_of (rev b)"
  by (induction b arbitrary: a)
     (auto simp: AList.update_conv' map_add_upd_left fun_eq_iff map_add_def split: option.splits)

lemma map_of_dict_merge_rev: "map_of (dict_merge a b) = map_of a ++ map_of (rev b)"
  unfolding dict_merge_def by (rule fold_update_map_of)

lemma map_of_rev_distinct: "distinct (map fst b) \<Longrightarrow> map_of (rev b) = map_of b"
  by (metis distinct_rev map_of_inject_set rev_map set_rev)

lemma map_of_dict_merge:
  "distinct (map fst b) \<Longrightarrow> map_of (dict_merge a b) = map_of a ++ map_of b"
  by (simp add: map_of_dict_merge_rev map_of_rev_distinct)

lemma fold_update_append:
  "distinct (map fst (a @ b)) \<Longrightarrow> fold (\<lambda>(k, v). AList.update k v) b a = a @ b"
proof (induction b arbitrary: a)
  case Nil
  then show ?case by simp
next
  case (Cons kv b)
  obtain k v where kv: "kv = (k, v)" by (cases kv)
  from Cons.prems kv have fresh: "k \<notin> fst ` set a" by auto
  have "distinct (map fst ((a @ [(k, v)]) @ b))" using Cons.prems kv by auto
  from Cons.IH[OF this] show ?case using fresh kv by (simp add: update_fresh)
qed

lemma dict_of_distinct: "distinct (map fst xs) \<Longrightarrow> dict_of xs = xs"
  unfolding dict_of_def dict_merge_def using fold_update_append[of "[]" xs] by simp

lemma dict_merge_Nil: "dict_merge a [] = a"
  by (simp add: dict_merge_def)

lemma set_update_subset: "set (AList.update k v al) \<subseteq> insert (k, v) (set al)"
  by (induction al) auto

lemma set_fold_update_subset:
  "set (fold (\<lambda>(k, v). AList.update k v) b a) \<subseteq> set a \<union> set b"
proof (induction b arbitrary: a)
  case Nil
  then show ?case by simp
next
  case (Cons kv b)
  obtain k v where kv: "kv = (k, v)" by (cases kv)
  have "set (fold (\<lambda>(k, v). AList.update k v) b (AList.update k v a)) \<subseteq> set (AList.update k v a) \<union> set b"
    by (rule Cons.IH)
  with set_update_subset[of k v a] show ?case unfolding kv by auto
qed

lemma set_dict_of_subset: "set (dict_of xs) \<subseteq> set xs"
  unfolding dict_of_def dict_merge_def using set_fold_update_subset[of xs "[]"] by simp

lemma keys_dict_of: "fst ` set (dict_of xs) = fst ` set xs"
  unfolding dict_of_def by (simp add: keys_dict_merge)

lemma map_of_split:
  assumes "distinct (map fst d)" and "map_of d k = Some v"
  shows "\<exists>before after. d = before @ (k, v) # after \<and> k \<notin> fst ` set before"
proof -
  from assms(2) have "(k, v) \<in> set d" by (rule map_of_SomeD)
  then obtain before after where d: "d = before @ (k, v) # after" by (auto dest: split_list)
  with assms(1) have "k \<notin> fst ` set before" by auto
  with d show ?thesis by blast
qed

lemma dict_merge_Cons: "dict_merge acc ((k, v) # xs) = dict_merge (AList.update k v acc) xs"
  by (simp add: dict_merge_def)

lemma set_dict_merge_subset: "set (dict_merge a b) \<subseteq> set a \<union> set b"
  unfolding dict_merge_def by (rule set_fold_update_subset)

lemma in_zip_all2:
  assumes "list_all2 P xs ys" and "(k, y) \<in> set (zip (map f xs) (map g ys))"
  shows "\<exists>x y'. x \<in> set xs \<and> k = f x \<and> y = g y' \<and> P x y'"
  using assms by (induction rule: list_all2_induct) auto

lemma all2_zip_lookup:
  assumes "list_all2 P xs ys" and "x \<in> set xs" and "distinct (map f xs)"
  shows "\<exists>y. P x y \<and> map_of (zip (map f xs) (map g ys)) (f x) = Some (g y)"
  using assms
proof (induction rule: list_all2_induct)
  case Nil
  then show ?case by simp
next
  case (Cons a xs b ys)
  show ?case
  proof (cases "x = a")
    case True
    with Cons show ?thesis by auto
  next
    case False
    with Cons.prems have x: "x \<in> set xs" and d: "distinct (map f xs)" by auto
    from Cons.prems(2) have "f a \<notin> f ` set xs" by simp
    with x have "f x \<noteq> f a" by (metis imageI)
    with Cons.IH[OF x d] show ?thesis by auto
  qed
qed

section \<open>Properties of \<open>replace\<close>\<close>

lemma replace_match:
  "old \<noteq> [] \<Longrightarrow> prefix old s \<Longrightarrow> replace old new s = new @ replace old new (drop (length old) s)"
  by (cases s) auto

lemma replace_skip:
  "old \<noteq> [] \<Longrightarrow> \<not> prefix old (c # cs) \<Longrightarrow> replace old new (c # cs) = c # replace old new cs"
  by simp

lemma replace_empty: "old \<noteq> [] \<Longrightarrow> replace old new [] = []"
  by simp

lemma replace_at_match: "old \<noteq> [] \<Longrightarrow> replace old new (old @ b) = new @ replace old new b"
  using replace_match[of old "old @ b" new] by simp

lemma replace_id: "\<not> sublist old s \<Longrightarrow> replace old new s = s"
proof (induction s)
  case Nil
  then show ?case by auto
next
  case (Cons c cs)
  from Cons.prems have ne: "old \<noteq> []" by auto
  from Cons.prems have np: "\<not> prefix old (c # cs)" and ns: "\<not> sublist old cs"
    by (auto simp: sublist_Cons_right)
  from Cons.IH[OF ns] show ?case by (simp only: replace_skip[OF ne np])
qed

lemma opens_nonempty: "opens p \<Longrightarrow> p \<noteq> []"
  by (auto simp: opens_def)

lemma opens_prefix_head: "opens p \<Longrightarrow> prefix p (c # cs) \<Longrightarrow> c = CHR ''{''"
  by (auto simp: opens_def)

lemma replace_plain_prefix:
  assumes "opens old" and "CHR ''{'' \<notin> set t"
  shows "replace old new (t @ b) = t @ replace old new b"
  using assms(2)
proof (induction t)
  case Nil
  then show ?case by simp
next
  case (Cons x t)
  have "\<not> prefix old (x # t @ b)" using opens_prefix_head[OF assms(1)] Cons.prems by auto
  then show ?case using Cons opens_nonempty[OF assms(1)] by (simp add: replace_skip)
qed

lemma prefix_append_brace:
  assumes "opens old" and "prefix old (a @ CHR ''{'' # r)" and "a \<noteq> []"
  shows "prefix old a"
proof -
  from assms(1) obtain ot where old: "old = CHR ''{'' # ot" and ot: "CHR ''{'' \<notin> set ot"
    by (auto simp: opens_def)
  from assms(2) have "prefix old a \<or> (\<exists>us. old = a @ us \<and> prefix us (CHR ''{'' # r))"
    by (simp only: prefix_append)
  then show ?thesis
  proof
    assume "prefix old a" then show ?thesis .
  next
    assume "\<exists>us. old = a @ us \<and> prefix us (CHR ''{'' # r)"
    then obtain us where us: "old = a @ us" "prefix us (CHR ''{'' # r)" by blast
    show ?thesis
    proof (cases us)
      case Nil
      with us(1) show ?thesis by simp
    next
      case (Cons u us')
      with us(2) have "u = CHR ''{''" by simp
      with us(1) Cons old assms(3) have "CHR ''{'' \<in> set ot" by (cases a) auto
      with ot show ?thesis by simp
    qed
  qed
qed

lemma replace_append_brace:
  assumes "opens old"
  shows "replace old new (a @ CHR ''{'' # r) = replace old new a @ replace old new (CHR ''{'' # r)"
proof (induction a rule: length_induct)
  case (1 a)
  note ne = opens_nonempty[OF assms]
  show ?case
  proof (cases a)
    case Nil
    then show ?thesis by (simp only: replace_empty[OF ne] append_Nil)
  next
    case (Cons c cs)
    show ?thesis
    proof (cases "prefix old (a @ CHR ''{'' # r)")
      case True
      with assms Cons have pa: "prefix old a" by (intro prefix_append_brace[of old a r]) auto
      then have len: "length old \<le> length a" by (rule prefix_length_le)
      have "length (drop (length old) a) < length a" using Cons ne by simp
      with 1 have IH: "replace old new (drop (length old) a @ CHR ''{'' # r) =
         replace old new (drop (length old) a) @ replace old new (CHR ''{'' # r)" by blast
      have "replace old new (a @ CHR ''{'' # r) = new @ replace old new (drop (length old) (a @ CHR ''{'' # r))"
        using True ne by (rule replace_match[rotated])
      also have "drop (length old) (a @ CHR ''{'' # r) = drop (length old) a @ CHR ''{'' # r"
        using len by simp
      finally have l: "replace old new (a @ CHR ''{'' # r) =
          new @ replace old new (drop (length old) a) @ replace old new (CHR ''{'' # r)"
        using IH by simp
      have "replace old new a = new @ replace old new (drop (length old) a)"
        using pa ne by (rule replace_match[rotated])
      with l show ?thesis by simp
    next
      case False
      then have npa: "\<not> prefix old a" by (metis prefix_prefix)
      have "length cs < length a" using Cons by simp
      with 1 have IH: "replace old new (cs @ CHR ''{'' # r) =
         replace old new cs @ replace old new (CHR ''{'' # r)" by blast
      have l: "replace old new (a @ CHR ''{'' # r) = c # replace old new (cs @ CHR ''{'' # r)"
        using replace_skip[OF ne, of c "cs @ CHR ''{'' # r" new] False Cons by simp
      have "replace old new a = c # replace old new cs"
        using replace_skip[OF ne, of c cs new] npa Cons by simp
      with l IH show ?thesis by simp
    qed
  qed
qed

lemma prefix_replace_plain:
  assumes "opens old" and "new \<noteq> []" and "hd new = CHR ''{''"
  shows "CHR ''{'' \<notin> set t \<Longrightarrow> prefix t (replace old new s) \<longleftrightarrow> prefix t s"
proof (induction s arbitrary: t rule: length_induct)
  case (1 s)
  note ne = opens_nonempty[OF assms(1)]
  show ?case
  proof (cases t)
    case Nil
    then show ?thesis by simp
  next
    case t: (Cons x xs)
    with "1.prems" have x: "x \<noteq> CHR ''{''" and xs: "CHR ''{'' \<notin> set xs" by auto
    show ?thesis
    proof (cases s)
      case Nil
      then show ?thesis by (simp only: replace_empty[OF ne])
    next
      case s: (Cons c cs)
      show ?thesis
      proof (cases "prefix old s")
        case True
        then have c: "c = CHR ''{''" using opens_prefix_head[OF assms(1)] s by simp
        obtain n ns where new: "new = n # ns" using assms(2) by (cases new) auto
        with assms(3) have n: "n = CHR ''{''" by simp
        have "replace old new s = new @ replace old new (drop (length old) s)"
          using True ne by (rule replace_match[rotated])
        then show ?thesis using t x c s new n by simp
      next
        case False
        have "length cs < length s" using s by simp
        with 1 xs have IH: "prefix xs (replace old new cs) = prefix xs cs" by blast
        have "replace old new s = c # replace old new cs"
          using replace_skip[OF ne, of c cs new] False s by simp
        then show ?thesis using IH t s by simp
      qed
    qed
  qed
qed

lemma sublist_plain_append:
  assumes "opens p"
  shows "CHR ''{'' \<notin> set t \<Longrightarrow> sublist p (t @ r) \<longleftrightarrow> sublist p r"
proof (induction t)
  case Nil
  then show ?case by simp
next
  case (Cons x t)
  have "\<not> prefix p (x # t @ r)" using opens_prefix_head[OF assms] Cons.prems by auto
  then show ?case using Cons by (simp add: sublist_Cons_right)
qed

lemma no_occurrence_after_replace:
  assumes "opens old" and "opens new" and "opens p"
    and "\<And>r. \<not> prefix p (new @ r)"
  shows "(\<And>u. suffix u s \<Longrightarrow> prefix p u \<Longrightarrow> prefix old u) \<Longrightarrow> \<not> sublist p (replace old new s)"
proof (induction s rule: length_induct)
  case (1 s)
  note ne = opens_nonempty[OF assms(1)]
  from assms(2) obtain nt where new: "new = CHR ''{'' # nt" and nt: "CHR ''{'' \<notin> set nt"
    by (auto simp: opens_def)
  from assms(3) obtain pt where p: "p = CHR ''{'' # pt" and pt: "CHR ''{'' \<notin> set pt"
    by (auto simp: opens_def)
  show ?case
  proof (cases s)
    case Nil
    then show ?thesis using p ne by simp
  next
    case s: (Cons c cs)
    show ?thesis
    proof (cases "prefix old s")
      case True
      let ?rest = "drop (length old) s"
      have r: "replace old new s = new @ replace old new ?rest"
        using True ne by (rule replace_match[rotated])
      have "length ?rest < length s" using s ne by simp
      moreover have "\<And>u. suffix u ?rest \<Longrightarrow> prefix p u \<Longrightarrow> prefix old u"
        using "1.prems" suffix_drop suffix_order.trans by blast
      ultimately have IH: "\<not> sublist p (replace old new ?rest)" using 1 by blast
      have "sublist p (new @ replace old new ?rest) \<longleftrightarrow>
            prefix p (new @ replace old new ?rest) \<or> sublist p (nt @ replace old new ?rest)"
        unfolding new by (simp add: sublist_Cons_right)
      also have "\<dots> \<longleftrightarrow> sublist p (replace old new ?rest)"
        using assms(4) sublist_plain_append[OF assms(3) nt] by simp
      finally show ?thesis using IH r by simp
    next
      case False
      have r: "replace old new s = c # replace old new cs"
        using replace_skip[OF ne, of c cs new] False s by simp
      have "length cs < length s" using s by simp
      moreover have "\<And>u. suffix u cs \<Longrightarrow> prefix p u \<Longrightarrow> prefix old u"
        using "1.prems" s by (simp add: suffix_Cons)
      ultimately have IH: "\<not> sublist p (replace old new cs)" using 1 by blast
      have "\<not> prefix p (c # replace old new cs)"
      proof
        assume a: "prefix p (c # replace old new cs)"
        then have c: "c = CHR ''{''" and "prefix pt (replace old new cs)" unfolding p by auto
        then have "prefix pt cs"
          using prefix_replace_plain[OF assms(1) _ _ pt, of new cs] new by simp
        with c have "prefix p s" unfolding p s by simp
        with "1.prems" have "prefix old s" by blast
        with False show False ..
      qed
      with IH r show ?thesis by (simp add: sublist_Cons_right)
    qed
  qed
qed

lemma replace_removes_all:
  assumes "opens old" and "opens new" and "\<And>r. \<not> prefix old (new @ r)"
  shows "\<not> sublist old (replace old new s)"
  using no_occurrence_after_replace[OF assms(1,2,1) assms(3)] by blast

lemma replace_adds_none:
  assumes "opens old" and "opens new" and "opens p" and "\<And>r. \<not> prefix p (new @ r)"
    and "\<not> sublist p s"
  shows "\<not> sublist p (replace old new s)"
proof (rule no_occurrence_after_replace[OF assms(1,2,3,4)])
  fix u assume "suffix u s" "prefix p u"
  then have "sublist p s" by (metis prefix_imp_sublist suffix_imp_sublist sublist_order.order_trans)
  with assms(5) show "prefix old u" by simp
qed

lemma replace_keeps_token:
  assumes "opens old" and "opens tok" and "\<not> prefix old (tok @ b)"
  shows "replace old new (a @ tok @ b) = replace old new a @ tok @ replace old new b"
proof -
  from assms(2) obtain tt where tok: "tok = CHR ''{'' # tt" and tt: "CHR ''{'' \<notin> set tt"
    by (auto simp: opens_def)
  note ne = opens_nonempty[OF assms(1)]
  have "replace old new (a @ tok @ b) = replace old new a @ replace old new (CHR ''{'' # tt @ b)"
    unfolding tok using replace_append_brace[OF assms(1), of new a "tt @ b"] by simp
  also have "replace old new (CHR ''{'' # tt @ b) = CHR ''{'' # replace old new (tt @ b)"
    using replace_skip[OF ne, of "CHR ''{''" "tt @ b" new] assms(3) unfolding tok by simp
  also have "replace old new (tt @ b) = tt @ replace old new b"
    by (rule replace_plain_prefix[OF assms(1) tt])
  finally show ?thesis unfolding tok by simp
qed

lemma closing_prefix_eq:
  "CHR ''}'' \<notin> set n \<Longrightarrow> CHR ''}'' \<notin> set x \<Longrightarrow> prefix (n @ ''}'') (x @ CHR ''}'' # b) \<Longrightarrow> n = x"
proof (induction n arbitrary: x)
  case Nil
  then show ?case by (cases x) auto
next
  case (Cons c n)
  then show ?case by (cases x) auto
qed

section \<open>The url rewrite and the attribution placeholders\<close>

lemma opens_maxZoom: "opens ''{maxZoom}''" "opens ''{minZoom}''" "opens ''{max_zoom}''" "opens ''{min_zoom}''"
  by (simp_all add: opens_def)

lemma rewrite_at_max: "rewrite_placeholders (''{maxZoom}'' @ b) = ''{max_zoom}'' @ rewrite_placeholders b"
  by simp

lemma rewrite_at_min: "rewrite_placeholders (''{minZoom}'' @ b) = ''{min_zoom}'' @ rewrite_placeholders b"
  by simp

lemma rewrite_skip:
  "\<not> prefix ''{maxZoom}'' (c # cs) \<Longrightarrow> \<not> prefix ''{minZoom}'' (c # cs) \<Longrightarrow>
   rewrite_placeholders (c # cs) = c # rewrite_placeholders cs"
  by (cases "c = CHR ''{''") simp_all

lemma replace_twice_rewrite:
  "replace ''{minZoom}'' ''{min_zoom}'' (replace ''{maxZoom}'' ''{max_zoom}'' u) = rewrite_placeholders u"
proof (induction u rule: length_induct)
  case (1 u)
  let ?P1 = "''{maxZoom}''" and ?N1 = "''{max_zoom}''" and ?P2 = "''{minZoom}''" and ?N2 = "''{min_zoom}''"
  let ?both = "\<lambda>s. replace ?P2 ?N2 (replace ?P1 ?N1 s)"
  show ?case
  proof (cases u)
    case Nil
    then show ?thesis by simp
  next
    case (Cons c cs)
    show ?thesis
    proof (cases "prefix ?P1 u")
      case True
      then obtain b where u: "u = ?P1 @ b" by (auto simp: prefix_def)
      then have "length b < length u" by simp
      with 1 have IH: "?both b = rewrite_placeholders b" by blast
      have r1: "replace ?P1 ?N1 (?P1 @ b) = ?N1 @ replace ?P1 ?N1 b"
        by (rule replace_at_match) simp
      have r2: "replace ?P2 ?N2 (?N1 @ replace ?P1 ?N1 b) = ?N1 @ ?both b"
        using replace_keeps_token[of ?P2 ?N1 "replace ?P1 ?N1 b" ?N2 "[]"] opens_maxZoom
        by (simp add: replace_empty del: replace.simps)
      show ?thesis unfolding u r1 r2 IH rewrite_at_max ..
    next
      case False
      show ?thesis
      proof (cases "prefix ?P2 u")
        case True
        then obtain b where u: "u = ?P2 @ b" by (auto simp: prefix_def)
        then have "length b < length u" by simp
        with 1 have IH: "?both b = rewrite_placeholders b" by blast
        have r1: "replace ?P1 ?N1 (?P2 @ b) = ?P2 @ replace ?P1 ?N1 b"
          using replace_keeps_token[of ?P1 ?P2 b ?N1 "[]"] opens_maxZoom
          by (simp add: replace_empty del: replace.simps)
        have r2: "replace ?P2 ?N2 (?P2 @ replace ?P1 ?N1 b) = ?N2 @ ?both b"
          by (rule replace_at_match) simp
        show ?thesis unfolding u r1 r2 IH rewrite_at_min ..
      next
        case np2: False
        have "length cs < length u" using Cons by simp
        with 1 have IH: "?both cs = rewrite_placeholders cs" by blast
        have r1: "replace ?P1 ?N1 (c # cs) = c # replace ?P1 ?N1 cs"
          using False Cons by (intro replace_skip) simp_all
        have "prefix ''minZoom}'' (replace ?P1 ?N1 cs) = prefix ''minZoom}'' cs"
          by (rule prefix_replace_plain) (simp_all add: opens_maxZoom)
        with np2 Cons have "\<not> prefix ?P2 (c # replace ?P1 ?N1 cs)" by simp
        then have r2: "replace ?P2 ?N2 (c # replace ?P1 ?N1 cs) = c # ?both cs"
          by (intro replace_skip) simp_all
        have r3: "rewrite_placeholders (c # cs) = c # rewrite_placeholders cs"
          using False np2 Cons by (intro rewrite_skip) simp_all
        show ?thesis unfolding Cons r1 r2 r3 IH ..
      qed
    qed
  qed
qed

lemma rewrite_no_tokens:
  "\<not> sublist ''{maxZoom}'' (rewrite_placeholders u) \<and> \<not> sublist ''{minZoom}'' (rewrite_placeholders u)"
proof -
  have a: "\<not> sublist ''{maxZoom}'' (replace ''{maxZoom}'' ''{max_zoom}'' u)"
    by (rule replace_removes_all) (simp_all add: opens_maxZoom)
  have b: "\<not> sublist ''{maxZoom}'' (replace ''{minZoom}'' ''{min_zoom}'' (replace ''{maxZoom}'' ''{max_zoom}'' u))"
    by (rule replace_adds_none[OF _ _ _ _ a]) (simp_all add: opens_maxZoom)
  have c: "\<not> sublist ''{minZoom}'' (replace ''{minZoom}'' ''{min_zoom}'' (replace ''{maxZoom}'' ''{max_zoom}'' u))"
    by (rule replace_removes_all) (simp_all add: opens_maxZoom)
  from b c show ?thesis unfolding replace_twice_rewrite by blast
qed

lemma rewrite_id:
  assumes "\<not> sublist ''{maxZoom}'' u" and "\<not> sublist ''{minZoom}'' u"
  shows "rewrite_placeholders u = u"
  using assms by (simp add: replace_twice_rewrite[symmetric] replace_id)

lemma bare_key_sublist:
  "sublist ''{maxZoom}'' u \<Longrightarrow> sublist ''maxZoom'' u" "sublist ''{minZoom}'' u \<Longrightarrow> sublist ''minZoom'' u"
proof -
  have a: "sublist ''maxZoom'' ''{maxZoom}''" "sublist ''minZoom'' ''{minZoom}''"
    by (simp_all add: sublist_Cons_right)
  show "sublist ''{maxZoom}'' u \<Longrightarrow> sublist ''maxZoom'' u" using a(1) sublist_order.order_trans by blast
  show "sublist ''{minZoom}'' u \<Longrightarrow> sublist ''minZoom'' u" using a(2) sublist_order.order_trans by blast
qed

lemma opens_placeholder: "brace_free name \<Longrightarrow> opens (placeholder name)"
  by (auto simp: opens_def placeholder_def brace_free_def)

lemma placeholder_mismatch:
  assumes "brace_free name" and "brace_free x" and "name \<noteq> x"
  shows "\<not> prefix (placeholder name) (placeholder x @ b)"
proof
  assume "prefix (placeholder name) (placeholder x @ b)"
  then have "prefix (name @ ''}'') (x @ CHR ''}'' # b)"
    by (simp add: placeholder_def)
  with assms(1,2) have "name = x" by (intro closing_prefix_eq[of name x b]) (auto simp: brace_free_def)
  with assms(3) show False ..
qed

lemma sublist_marker_placeholder: "sublist ''{attribution.'' (l @ placeholder x @ r)"
proof -
  have "l @ placeholder x @ r = l @ ''{attribution.'' @ (x @ ''}'' @ r)"
    by (simp add: placeholder_def)
  then show ?thesis by (simp only: sublist_appendI)
qed

lemma opens_token: "brace_free name \<Longrightarrow> opens (token name)"
  by (auto simp: opens_def token_def brace_free_def)

lemma token_mismatch:
  assumes "brace_free name" and "brace_free key" and "key \<noteq> name"
  shows "\<not> prefix (token key) (token name @ b)"
proof
  assume "prefix (token key) (token name @ b)"
  then have "prefix (key @ ''}'') (name @ CHR ''}'' # b)"
    by (simp add: token_def)
  with assms(1,2) have "key = name"
    by (intro closing_prefix_eq[of key name b]) (auto simp: brace_free_def)
  with assms(3) show False ..
qed

lemma rewrite_keeps_token:
  assumes "brace_free name" and "name \<noteq> ''maxZoom''" and "name \<noteq> ''minZoom''"
  shows "rewrite_placeholders (l @ token name @ r) =
         rewrite_placeholders l @ token name @ rewrite_placeholders r"
proof -
  have bf: "brace_free ''maxZoom''" "brace_free ''minZoom''" by (simp_all add: brace_free_def)
  have t: "token ''maxZoom'' = ''{maxZoom}''" "token ''minZoom'' = ''{minZoom}''"
    by (simp_all add: token_def)
  have m1: "\<not> prefix ''{maxZoom}'' (token name @ b)" for b
    using token_mismatch[OF assms(1) bf(1), of b] assms(2) unfolding t by blast
  have m2: "\<not> prefix ''{minZoom}'' (token name @ b)" for b
    using token_mismatch[OF assms(1) bf(2), of b] assms(3) unfolding t by blast
  have "replace ''{maxZoom}'' ''{max_zoom}'' (l @ token name @ r) =
      replace ''{maxZoom}'' ''{max_zoom}'' l @ token name @ replace ''{maxZoom}'' ''{max_zoom}'' r"
    by (rule replace_keeps_token[OF opens_maxZoom(1) opens_token[OF assms(1)] m1])
  moreover have "replace ''{minZoom}'' ''{min_zoom}''
       (replace ''{maxZoom}'' ''{max_zoom}'' l @ token name @ replace ''{maxZoom}'' ''{max_zoom}'' r) =
      replace ''{minZoom}'' ''{min_zoom}'' (replace ''{maxZoom}'' ''{max_zoom}'' l) @ token name @
      replace ''{minZoom}'' ''{min_zoom}'' (replace ''{maxZoom}'' ''{max_zoom}'' r)"
    by (rule replace_keeps_token[OF opens_maxZoom(2) opens_token[OF assms(1)] m2])
  ultimately show ?thesis by (simp only: replace_twice_rewrite[symmetric])
qed

section \<open>Properties of \<open>pythonize_data\<close>\<close>

lemma pythonize_items_all2:
  "pythonize_items attributions d = Inr nd \<Longrightarrow>
   list_all2 (\<lambda>kv kv'. pythonize_item attributions kv = Inr kv') d nd"
  by (induction d arbitrary: nd) (auto split: sum.splits)

lemma pythonize_items_fixed:
  "\<forall>kv \<in> set d. pythonize_item attributions kv = Inr kv \<Longrightarrow> pythonize_items attributions d = Inr d"
  by (induction d) auto

lemma pythonize_items_fail:
  assumes "\<forall>kv \<in> set before. \<exists>kv'. pythonize_item attributions kv = Inr kv'"
    and "pythonize_item attributions item = Inl e"
  shows "pythonize_items attributions (before @ item # after) = Inl e"
  using assms(1)
proof (induction before)
  case Nil
  then show ?case using assms(2) by simp
next
  case (Cons kv before)
  then obtain kv' where "pythonize_item attributions kv = Inr kv'" by auto
  with Cons show ?case by simp
qed

lemma substitute_resolved:
  "substitute attributions v = Inr v' \<Longrightarrow> py_in ''{attribution.'' v' = Inr False"
proof (induction attributions arbitrary: v)
  case Nil
  then show ?case by simp
next
  case (Cons pa attributions)
  obtain p a where pa: "pa = (p, a)" by (cases pa)
  from Cons.prems Cons.IH show ?case unfolding pa
    by (auto split: sum.splits bool.splits)
qed

lemma substitute_unknown:
  assumes "brace_free x"
  shows "\<forall>(name, attr) \<in> set entries. brace_free name \<and> name \<noteq> x \<Longrightarrow>
    \<exists>l' r'. substitute (named_table entries) (JStr (l @ placeholder x @ r)) =
       Inl (ValueError (JStr (l' @ placeholder x @ r')))"
proof (induction entries arbitrary: l r)
  case Nil
  have "substitute (named_table []) (JStr (l @ placeholder x @ r)) =
      Inl (ValueError (JStr (l @ placeholder x @ r)))"
    by (simp add: named_table_def)
  then show ?case by blast
next
  case (Cons e entries)
  obtain name attr where e: "e = (name, attr)" by (cases e)
  from Cons.prems e have name: "brace_free name" "name \<noteq> x"
    and rest: "\<forall>(name, attr) \<in> set entries. brace_free name \<and> name \<noteq> x" by auto
  have nt: "named_table (e # entries) = (placeholder name, JStr attr) # named_table entries"
    by (simp add: named_table_def e)
  let ?v = "l @ placeholder x @ r"
  show ?case
  proof (cases "sublist (placeholder name) ?v")
    case False
    then have "substitute (named_table (e # entries)) (JStr ?v) = substitute (named_table entries) (JStr ?v)"
      by (simp add: nt)
    with Cons.IH[OF rest, of l r] show ?thesis by simp
  next
    case True
    have keep: "replace (placeholder name) attr ?v =
        replace (placeholder name) attr l @ placeholder x @ replace (placeholder name) attr r"
      by (rule replace_keeps_token[OF opens_placeholder[OF name(1)] opens_placeholder[OF assms]
            placeholder_mismatch[OF name(1) assms name(2)]])
    have "substitute (named_table (e # entries)) (JStr ?v) =
        substitute (named_table entries)
          (JStr (replace (placeholder name) attr l @ placeholder x @ replace (placeholder name) attr r))"
      using True sublist_marker_placeholder[of "replace (placeholder name) attr l" x "replace (placeholder name) attr r"]
      by (simp add: nt keep)
    with Cons.IH[OF rest, of "replace (placeholder name) attr l" "replace (placeholder name) attr r"]
    show ?thesis by simp
  qed
qed

lemma pythonize_item_key:
  "pythonize_item attributions (k, v) = Inr (k', v') \<Longrightarrow> k' = canonical_key k"
  by (auto simp: pythonize_item_def canonical_key_def rename_keys_def split: sum.splits bool.splits if_splits)

lemma pythonize_item_plain:
  assumes "k \<noteq> ''attribution''" and "k = ''url'' \<longrightarrow> (\<exists>u. v = JStr u)"
  shows "\<exists>kv. pythonize_item attributions (k, v) = Inr kv"
proof (cases "k = ''url''")
  case True
  with assms(2) obtain u where "v = JStr u" by blast
  with True show ?thesis
    by (simp add: pythonize_item_def rename_keys_def split: sum.splits bool.splits)
next
  case False
  with assms(1) show ?thesis
    by (simp add: pythonize_item_def rename_keys_def split: option.splits)
qed

lemma pythonize_item_url:
  "pythonize_item attributions (''url'', JStr u) = Inr (''url'', JStr (rewrite_placeholders u))"
proof (cases "sublist ''maxZoom'' u \<or> sublist ''minZoom'' u")
  case True
  then have "any_in (map fst rename_keys) (JStr u) = Inr True"
    by (auto simp: rename_keys_def split: bool.splits)
  moreover have "rename_in_url rename_keys (JStr u) = Inr (JStr (rewrite_placeholders u))"
    by (simp add: rename_keys_def replace_twice_rewrite del: replace.simps)
  ultimately show ?thesis by (simp add: pythonize_item_def rename_keys_def)
next
  case False
  then have "any_in (map fst rename_keys) (JStr u) = Inr False"
    by (auto simp: rename_keys_def)
  moreover have "rewrite_placeholders u = u"
    using False bare_key_sublist by (intro rewrite_id) blast+
  ultimately show ?thesis by (simp add: pythonize_item_def rename_keys_def)
qed

lemma pythonize_item_attribution:
  assumes "pythonize_item attributions (k, v) = Inr (''attribution'', v')"
  shows "py_in ''{attribution.'' v' = Inr False"
proof -
  from pythonize_item_key[OF assms] have k: "k = ''attribution''"
    by (auto simp: canonical_key_def rename_keys_def split: if_splits)
  show ?thesis
  proof (cases "py_in ''{attribution.'' v")
    case (Inl e)
    with assms k show ?thesis by (simp add: pythonize_item_def)
  next
    case (Inr b)
    show ?thesis
    proof (cases b)
      case True
      with Inr assms k obtain "substitute attributions v = Inr v'"
        by (auto simp: pythonize_item_def split: sum.splits)
      then show ?thesis by (rule substitute_resolved)
    next
      case False
      with Inr assms k have "v' = v" by (simp add: pythonize_item_def rename_keys_def)
      with Inr False show ?thesis by simp
    qed
  qed
qed

lemma pythonize_item_value:
  assumes "pythonize_item attributions (k, v) = Inr (k', v')"
    and "k \<noteq> ''attribution''" and "k \<noteq> ''url''"
  shows "v' = v"
  using assms
  by (auto simp: pythonize_item_def rename_keys_def split: sum.splits bool.splits if_splits)

lemma pythonize_item_url_cases:
  assumes "pythonize_item attributions (''url'', v) = Inr (k', v')"
  shows "(\<exists>u. v = JStr u \<and> v' = JStr (rewrite_placeholders u)) \<or> ((\<forall>u. v \<noteq> JStr u) \<and> v' = v)"
proof (cases v)
  case (JStr u)
  with assms pythonize_item_url[of attributions u] show ?thesis by simp
next
  case (JObj d)
  with assms show ?thesis
    by (auto simp: pythonize_item_def rename_keys_def split: sum.splits bool.splits if_splits)
qed (use assms in \<open>auto simp: pythonize_item_def rename_keys_def\<close>)

lemma pythonize_item_idem:
  assumes "pythonize_item attributions kv = Inr kv'"
  shows "pythonize_item attributions kv' = Inr kv'"
proof -
  obtain k v where kv: "kv = (k, v)" by (cases kv)
  obtain k' v' where kv': "kv' = (k', v')" by (cases kv')
  note a = assms[unfolded kv kv']
  from pythonize_item_key[OF a] have k': "k' = canonical_key k" .
  consider "k = ''attribution''" | "k = ''url''" | "k \<noteq> ''attribution''" "k \<noteq> ''url''" by blast
  then show ?thesis
  proof cases
    case 1
    with k' have "k' = ''attribution''" by (simp add: canonical_key_def rename_keys_def)
    with a pythonize_item_attribution[of attributions k v v'] show ?thesis
      by (simp add: kv' pythonize_item_def rename_keys_def)
  next
    case 2
    with k' have ku: "k' = ''url''" by (simp add: canonical_key_def rename_keys_def)
    from pythonize_item_url_cases[OF a[unfolded 2]]
    show ?thesis
    proof
      assume "\<exists>u. v = JStr u \<and> v' = JStr (rewrite_placeholders u)"
      then obtain u where v': "v' = JStr (rewrite_placeholders u)" by blast
      have "rewrite_placeholders (rewrite_placeholders u) = rewrite_placeholders u"
        using rewrite_no_tokens[of u] by (intro rewrite_id) simp_all
      with pythonize_item_url[of attributions "rewrite_placeholders u"] show ?thesis
        by (simp add: kv' ku v')
    next
      assume "(\<forall>u. v \<noteq> JStr u) \<and> v' = v"
      with a 2 ku show ?thesis by (simp add: kv')
    qed
  next
    case 3
    from pythonize_item_value[OF a 3] have v': "v' = v" .
    from k' 3 have "k' \<noteq> ''attribution''" "k' \<noteq> ''url''" "map_of rename_keys k' = None"
      by (auto simp: canonical_key_def rename_keys_def split: if_splits)
    then show ?thesis by (simp add: kv' pythonize_item_def)
  qed
qed

lemma pythonize_data_items:
  assumes "pythonize_data attributions d = Inr d'"
  shows "\<forall>kv' \<in> set d'. \<exists>kv \<in> set d. pythonize_item attributions kv = Inr kv'"
proof -
  from assms obtain nd where nd: "pythonize_items attributions d = Inr nd" and d': "d' = dict_of nd"
    by (auto simp: pythonize_data_def split: sum.splits)
  from pythonize_items_all2[OF nd]
  have "\<forall>kv' \<in> set nd. \<exists>kv \<in> set d. pythonize_item attributions kv = Inr kv'"
    by (induction rule: list_all2_induct) auto
  with set_dict_of_subset[of nd] d' show ?thesis by blast
qed

lemma pythonize_data_distinct: "pythonize_data attributions d = Inr d' \<Longrightarrow> distinct (map fst d')"
  by (auto simp: pythonize_data_def distinct_dict_of split: sum.splits)

lemma pythonize_data_keys:
  assumes "pythonize_data attributions d = Inr d'"
  shows "fst ` set d' = canonical_key ` fst ` set d"
proof -
  from assms obtain nd where nd: "pythonize_items attributions d = Inr nd" and d': "d' = dict_of nd"
    by (auto simp: pythonize_data_def split: sum.splits)
  have "map fst nd = map (canonical_key \<circ> fst) d"
    using nd
  proof (induction d arbitrary: nd)
    case Nil
    then show ?case by simp
  next
    case (Cons kv d)
    then show ?case
      by (cases kv) (auto split: sum.splits dest: pythonize_item_key)
  qed
  then have "fst ` set nd = canonical_key ` fst ` set d"
    by (metis image_comp list.set_map)
  with d' show ?thesis by (simp add: keys_dict_of)
qed

lemma pythonize_data_passthrough:
  assumes "distinct (map fst d)" and "pythonize_data attributions d = Inr d'"
    and "k \<notin> {''attribution'', ''url'', ''maxZoom'', ''minZoom'', ''max_zoom'', ''min_zoom''}"
  shows "map_of d' k = map_of d k"
proof (cases "map_of d' k")
  case None
  have "k \<notin> fst ` set d"
  proof
    assume "k \<in> fst ` set d"
    then have "canonical_key k \<in> canonical_key ` fst ` set d" by (rule imageI)
    moreover have "canonical_key k = k" using assms(3) by (simp add: canonical_key_def rename_keys_def)
    ultimately have "k \<in> fst ` set d'" unfolding pythonize_data_keys[OF assms(2)] by simp
    with None show False by (simp add: map_of_eq_None_iff)
  qed
  then have "map_of d k = None" by (simp add: map_of_eq_None_iff)
  with None show ?thesis by simp
next
  case (Some x)
  then have "(k, x) \<in> set d'" by (rule map_of_SomeD)
  with pythonize_data_items[OF assms(2)] obtain k0 v0 where
    kv: "(k0, v0) \<in> set d" and item: "pythonize_item attributions (k0, v0) = Inr (k, x)" by force
  from pythonize_item_key[OF item] assms(3) have k0: "k0 = k"
    by (auto simp: canonical_key_def rename_keys_def split: if_splits)
  with pythonize_item_value[OF item] assms(3) have "x = v0" by simp
  with kv k0 assms(1) have "map_of d k = Some x" by simp
  with Some show ?thesis by simp
qed

lemma pythonize_items_fail_any:
  assumes "pythonize_item attributions item = Inl e"
  shows "\<exists>e'. pythonize_items attributions (before @ item # after) = Inl e'"
proof (induction before)
  case Nil
  then show ?case using assms by simp
next
  case (Cons kv before)
  then show ?case by (cases "pythonize_item attributions kv") auto
qed

lemma pythonize_item_unknown:
  assumes "\<forall>(name, attr) \<in> set entries. brace_free name"
    and "brace_free x" and "x \<notin> fst ` set entries"
  shows "\<exists>l' r'. pythonize_item (named_table entries) (''attribution'', JStr (l @ placeholder x @ r)) =
        Inl (ValueError (JStr (l' @ placeholder x @ r')))"
proof -
  have "\<forall>(name, attr) \<in> set entries. brace_free name \<and> name \<noteq> x"
    using assms(1,3) by force
  from substitute_unknown[OF assms(2) this, of l r] obtain l' r' where
    "substitute (named_table entries) (JStr (l @ placeholder x @ r)) =
        Inl (ValueError (JStr (l' @ placeholder x @ r')))" by blast
  then have "pythonize_item (named_table entries) (''attribution'', JStr (l @ placeholder x @ r)) =
        Inl (ValueError (JStr (l' @ placeholder x @ r')))"
    using sublist_marker_placeholder[of l x r] by (simp add: pythonize_item_def)
  then show ?thesis by blast
qed

lemma pythonize_data_unknown_fails:
  assumes "\<forall>(name, attr) \<in> set entries. brace_free name"
    and "brace_free x" and "x \<notin> fst ` set entries"
    and "map_of data ''attribution'' = Some (JStr (l @ placeholder x @ r))"
  shows "\<exists>e. pythonize_data (named_table entries) data = Inl e"
proof -
  from assms(4) have "(''attribution'', JStr (l @ placeholder x @ r)) \<in> set data"
    by (rule map_of_SomeD)
  then obtain before after where
    d: "data = before @ (''attribution'', JStr (l @ placeholder x @ r)) # after"
    by (auto dest: split_list)
  from pythonize_item_unknown[OF assms(1-3), of l r] obtain e where
    "pythonize_item (named_table entries) (''attribution'', JStr (l @ placeholder x @ r)) = Inl e"
    by blast
  from pythonize_items_fail_any[OF this, of before after] show ?thesis
    by (auto simp: pythonize_data_def d)
qed

lemma pythonize_data_unknown:
  assumes "\<forall>(name, attr) \<in> set entries. brace_free name"
    and "brace_free x" and "x \<notin> fst ` set entries"
    and "map_of data ''attribution'' = Some (JStr (l @ placeholder x @ r))"
    and "distinct (map fst data)"
    and "\<forall>v. map_of data ''url'' = Some v \<longrightarrow> (\<exists>u. v = JStr u)"
  shows "\<exists>v'. pythonize_data (named_table entries) data = Inl (ValueError (JStr v'))
              \<and> sublist (placeholder x) v'"
proof -
  let ?item = "(''attribution'', JStr (l @ placeholder x @ r))"
  from map_of_split[OF assms(5,4)] obtain before after where
    d: "data = before @ ?item # after" and nb: "''attribution'' \<notin> fst ` set before" by blast
  from pythonize_item_unknown[OF assms(1-3), of l r] obtain l' r' where
    item: "pythonize_item (named_table entries) ?item =
        Inl (ValueError (JStr (l' @ placeholder x @ r')))" by blast
  have "\<exists>kv'. pythonize_item (named_table entries) kv = Inr kv'" if kv: "kv \<in> set before" for kv
  proof -
    obtain k v where kv': "kv = (k, v)" by (cases kv)
    from kv kv' nb have k: "k \<noteq> ''attribution''" by force
    have "k = ''url'' \<longrightarrow> (\<exists>u. v = JStr u)"
    proof
      assume "k = ''url''"
      with kv kv' d have "(''url'', v) \<in> set data" by simp
      with assms(5) have "map_of data ''url'' = Some v" by simp
      with assms(6) show "\<exists>u. v = JStr u" by blast
    qed
    with k show ?thesis unfolding kv' by (rule pythonize_item_plain)
  qed
  then have "\<forall>kv \<in> set before. \<exists>kv'. pythonize_item (named_table entries) kv = Inr kv'" by blast
  from pythonize_items_fail[OF this item]
  have "pythonize_data (named_table entries) data = Inl (ValueError (JStr (l' @ placeholder x @ r')))"
    by (simp add: pythonize_data_def d)
  then show ?thesis by (intro exI[of _ "l' @ placeholder x @ r'"]) simp
qed

lemma pythonize_data_url:
  assumes "distinct (map fst d)" and "map_of d ''url'' = Some (JStr u)"
    and "pythonize_data attributions d = Inr d'"
  shows "map_of d' ''url'' = Some (JStr (rewrite_placeholders u))"
proof -
  from assms(2) have ind: "(''url'', JStr u) \<in> set d" by (rule map_of_SomeD)
  have ck: "canonical_key ''url'' = ''url''" by (simp add: canonical_key_def rename_keys_def)
  from ind have "''url'' \<in> fst ` set d" by (rule image_eqI[rotated]) simp
  then have "canonical_key ''url'' \<in> canonical_key ` fst ` set d" by (rule imageI)
  then have "''url'' \<in> fst ` set d'"
    unfolding pythonize_data_keys[OF assms(3)] ck .
  then obtain x where x: "(''url'', x) \<in> set d'" by auto
  with pythonize_data_items[OF assms(3)] obtain k v where
    kv: "(k, v) \<in> set d" and item: "pythonize_item attributions (k, v) = Inr (''url'', x)" by force
  from pythonize_item_key[OF item] have "k = ''url''"
    by (auto simp: canonical_key_def rename_keys_def split: if_splits)
  with kv assms(1,2) have "v = JStr u" by (metis map_of_is_SomeI option.inject)
  with item \<open>k = ''url''\<close> pythonize_item_url[of attributions u] have "x = JStr (rewrite_placeholders u)"
    by simp
  with x pythonize_data_distinct[OF assms(3)]
  show "map_of d' ''url'' = Some (JStr (rewrite_placeholders u))" by simp
qed

lemma pythonize_data_plain_attribution:
  assumes "distinct (map fst d)" and "map_of d ''attribution'' = Some (JStr a)"
    and "\<not> sublist ''{attribution.'' a"
    and "pythonize_data attributions d = Inr d'"
  shows "map_of d' ''attribution'' = Some (JStr a)"
proof -
  from assms(2) have ind: "(''attribution'', JStr a) \<in> set d" by (rule map_of_SomeD)
  have ck: "canonical_key ''attribution'' = ''attribution''"
    by (simp add: canonical_key_def rename_keys_def)
  from ind have "''attribution'' \<in> fst ` set d" by (rule image_eqI[rotated]) simp
  then have "canonical_key ''attribution'' \<in> canonical_key ` fst ` set d" by (rule imageI)
  then have "''attribution'' \<in> fst ` set d'"
    unfolding pythonize_data_keys[OF assms(4)] ck .
  then obtain x where x: "(''attribution'', x) \<in> set d'" by auto
  with pythonize_data_items[OF assms(4)] obtain k v where
    kv: "(k, v) \<in> set d" and item: "pythonize_item attributions (k, v) = Inr (''attribution'', x)"
    by force
  from pythonize_item_key[OF item] have k: "k = ''attribution''"
    by (auto simp: canonical_key_def rename_keys_def split: if_splits)
  with kv assms(1,2) have "v = JStr a" by (metis map_of_is_SomeI option.inject)
  with item k assms(3) have "x = JStr a" by (simp add: pythonize_item_def rename_keys_def)
  with x pythonize_data_distinct[OF assms(4)]
  show ?thesis by simp
qed

lemma pythonize_data_renamed:
  assumes "distinct (map fst d)" and "pythonize_data attributions d = Inr d'"
    and "(k, k') \<in> set rename_keys" and "map_of d k' = None"
  shows "map_of d' k' = map_of d k" and "map_of d' k = None"
proof -
  from assms(3) have kk: "k = ''maxZoom'' \<and> k' = ''max_zoom'' \<or> k = ''minZoom'' \<and> k' = ''min_zoom''"
    by (auto simp: rename_keys_def)
  then have ck: "canonical_key k = k'" by (auto simp: canonical_key_def rename_keys_def)
  have inv: "x = k \<or> x = k'" if "canonical_key x = k'" for x
    using that kk by (auto simp: canonical_key_def rename_keys_def split: if_splits)
  have nk: "canonical_key x \<noteq> k" for x
    using kk by (auto simp: canonical_key_def rename_keys_def split: if_splits)
  from assms(4) have nk': "k' \<notin> fst ` set d" by (simp add: map_of_eq_None_iff)
  have "k \<notin> fst ` set d'" unfolding pythonize_data_keys[OF assms(2)] using nk by auto
  then show "map_of d' k = None" by (simp add: map_of_eq_None_iff)
  show "map_of d' k' = map_of d k"
  proof (cases "map_of d' k'")
    case None
    then have "k' \<notin> fst ` set d'" by (simp add: map_of_eq_None_iff)
    then have "k' \<notin> canonical_key ` fst ` set d" unfolding pythonize_data_keys[OF assms(2)] .
    with ck have "k \<notin> fst ` set d" by (metis imageI)
    then have "map_of d k = None" by (simp add: map_of_eq_None_iff)
    with None show ?thesis by simp
  next
    case (Some x)
    then have "(k', x) \<in> set d'" by (rule map_of_SomeD)
    with pythonize_data_items[OF assms(2)] obtain k0 v0 where
      kv: "(k0, v0) \<in> set d" and item: "pythonize_item attributions (k0, v0) = Inr (k', x)" by force
    from pythonize_item_key[OF item] inv have "k0 = k \<or> k0 = k'" by blast
    moreover from kv nk' have "k0 \<noteq> k'" by force
    ultimately have k0: "k0 = k" by blast
    from kk k0 have "k0 \<noteq> ''attribution''" "k0 \<noteq> ''url''" by auto
    from pythonize_item_value[OF item this] have "x = v0" .
    with kv k0 assms(1) have "map_of d k = Some x" by simp
    with Some show ?thesis by simp
  qed
qed

section \<open>Registered values and the single-pass resolution\<close>
































section \<open>Properties of \<open>process_provider\<close> and \<open>process_data\<close>\<close>

lemma process_provider_leaf:
  assumes "map_of data name = Some (JObj entry)" and "lacks_variants entry"
    and "map_of entry ''options'' = Some (JObj options)"
  shows "process_provider attributions data name =
         pythonize_data attributions (AList.update ''name'' (JStr name) (base_keys entry options))"
  using assms by (auto simp: process_provider_def lacks_variants_def base_keys_def)

lemma process_provider_variants:
  assumes "map_of data name = Some (JObj entry)" and "map_of entry ''variants'' = Some (JObj vs)"
    and "map_of entry ''options'' = Some (JObj options)"
  shows "process_provider attributions data name =
         process_variants attributions name (base_keys entry options) vs []"
  using assms by (simp add: process_provider_def base_keys_def)

lemma process_provider_cases:
  assumes "process_provider attributions data name = Inr r"
  obtains
    (leaf) entry options where "map_of data name = Some (JObj entry)"
      "map_of entry ''options'' = Some (JObj options)" "lacks_variants entry"
      "pythonize_data attributions (AList.update ''name'' (JStr name) (base_keys entry options)) = Inr r"
  | (variants) entry options vs where "map_of data name = Some (JObj entry)"
      "map_of entry ''options'' = Some (JObj options)" "map_of entry ''variants'' = Some (JObj vs)"
      "process_variants attributions name (base_keys entry options) vs [] = Inr r"
  | (empty) entry options where "map_of data name = Some (JObj entry)"
      "map_of entry ''options'' = Some (JObj options)" "map_of entry ''variants'' = Some (JStr [])"
      "r = []"
proof -
  from assms obtain entry where e: "map_of data name = Some (JObj entry)"
    by (auto simp: process_provider_def split: option.splits json.splits)
  with assms obtain options where o: "map_of entry ''options'' = Some (JObj options)"
    by (auto simp: process_provider_def Let_def split: option.splits json.splits)
  show ?thesis
  proof (cases "map_of entry ''variants''")
    case None
    then have l: "lacks_variants entry" by (simp add: lacks_variants_def)
    from assms show ?thesis unfolding process_provider_leaf[OF e l o] by (rule leaf[OF e o l])
  next
    case (Some v)
    show ?thesis
    proof (cases v)
      case JNull
      with Some have l: "lacks_variants entry" by (simp add: lacks_variants_def)
      from assms show ?thesis unfolding process_provider_leaf[OF e l o] by (rule leaf[OF e o l])
    next
      case (JObj vs)
      with Some have v: "map_of entry ''variants'' = Some (JObj vs)" by simp
      from assms show ?thesis unfolding process_provider_variants[OF e v o] by (rule variants[OF e o v])
    next
      case (JStr s)
      with Some assms e o have "s = [] \<and> r = []"
        by (auto simp: process_provider_def split: if_splits)
      with Some JStr show ?thesis by (intro empty[OF e o]) simp_all
    next
      case (JBool b)
      with Some assms e o show ?thesis by (simp add: process_provider_def)
    next
      case (JNum n)
      with Some assms e o show ?thesis by (simp add: process_provider_def)
    qed
  qed
qed

lemma process_variants_out:
  "process_variants attributions name pk vs acc = Inr result \<Longrightarrow>
   \<exists>recs. list_all2 (\<lambda>vv r. process_variant attributions name pk (fst vv) (snd vv) = Inr r) vs recs
      \<and> result = dict_merge acc (zip (map fst vs) (map JObj recs))"
proof (induction vs arbitrary: acc)
  case Nil
  then show ?case by (simp add: dict_merge_Nil)
next
  case (Cons vv vs)
  obtain variant var where vv: "vv = (variant, var)" by (cases vv)
  from Cons.prems obtain r where r: "process_variant attributions name pk variant var = Inr r"
    and rest: "process_variants attributions name pk vs (AList.update variant (JObj r) acc) = Inr result"
    unfolding vv by (auto split: sum.splits)
  from Cons.IH[OF rest] obtain recs where
    recs: "list_all2 (\<lambda>vv r. process_variant attributions name pk (fst vv) (snd vv) = Inr r) vs recs"
      "result = dict_merge (AList.update variant (JObj r) acc) (zip (map fst vs) (map JObj recs))"
    by blast
  have "list_all2 (\<lambda>vv r. process_variant attributions name pk (fst vv) (snd vv) = Inr r) (vv # vs) (r # recs)"
    using r recs(1) by (simp add: vv)
  moreover have "result = dict_merge acc (zip (map fst (vv # vs)) (map JObj (r # recs)))"
    using recs(2) by (simp add: vv dict_merge_Cons)
  ultimately show ?case by blast
qed

lemma process_providers_out:
  "process_providers attributions data ps acc = Inr result \<Longrightarrow>
   \<exists>rs. list_all2 (\<lambda>pe r. process_provider attributions data (fst pe) = Inr r) ps rs
      \<and> result = dict_merge acc (zip (map fst ps) (map JObj rs))"
proof (induction ps arbitrary: acc)
  case Nil
  then show ?case by (simp add: dict_merge_Nil)
next
  case (Cons pe ps)
  obtain p e where pe: "pe = (p, e)" by (cases pe)
  from Cons.prems obtain r where r: "process_provider attributions data p = Inr r"
    and rest: "process_providers attributions data ps (AList.update p (JObj r) acc) = Inr result"
    unfolding pe by (auto split: sum.splits)
  from Cons.IH[OF rest] obtain rs where
    rs: "list_all2 (\<lambda>pe r. process_provider attributions data (fst pe) = Inr r) ps rs"
      "result = dict_merge (AList.update p (JObj r) acc) (zip (map fst ps) (map JObj rs))"
    by blast
  have "list_all2 (\<lambda>pe r. process_provider attributions data (fst pe) = Inr r) (pe # ps) (r # rs)"
    using r rs(1) by (simp add: pe)
  moreover have "result = dict_merge acc (zip (map fst (pe # ps)) (map JObj (r # rs)))"
    using rs(2) by (simp add: pe dict_merge_Cons)
  ultimately show ?case by blast
qed

lemma canonical_key_fixed:
  "k \<notin> {''maxZoom'', ''minZoom'', ''max_zoom'', ''min_zoom''} \<Longrightarrow> k \<in> canonical_key ` K \<longleftrightarrow> k \<in> K"
proof -
  assume k: "k \<notin> {''maxZoom'', ''minZoom'', ''max_zoom'', ''min_zoom''}"
  then have a: "canonical_key k = k" by (simp add: canonical_key_def rename_keys_def)
  have b: "k' = k" if "canonical_key k' = k" for k'
    using that k by (auto simp: canonical_key_def rename_keys_def split: if_splits)
  show ?thesis using a b by (metis image_iff)
qed

lemma distinct_base_keys: "distinct (map fst entry) \<Longrightarrow> distinct (map fst (base_keys entry options))"
  unfolding base_keys_def by (intro distinct_dict_merge AList.distinct_delete)

lemma keys_base_keys:
  "fst ` set (base_keys entry options) = (fst ` set entry - {''variants'', ''options''}) \<union> fst ` set options"
proof -
  have "fst ` set (AList.delete k al) = fst ` set al - {k}" for k and al :: dict
    by (induction al) (auto simp: AList.delete_eq)
  then show ?thesis unfolding base_keys_def keys_dict_merge by auto
qed

lemma record_keys:
  assumes "pythonize_data attributions (AList.update ''name'' (JStr n) m) = Inr record"
  shows "k \<notin> {''maxZoom'', ''minZoom'', ''max_zoom'', ''min_zoom'', ''name''} \<Longrightarrow>
         k \<in> fst ` set record \<longleftrightarrow> k \<in> fst ` set m"
    and "resolved_record record"
proof -
  let ?d = "AList.update ''name'' (JStr n) m"
  show "k \<in> fst ` set record \<longleftrightarrow> k \<in> fst ` set m"
    if "k \<notin> {''maxZoom'', ''minZoom'', ''max_zoom'', ''min_zoom'', ''name''}"
  proof -
    from that have "k \<in> canonical_key ` fst ` set ?d \<longleftrightarrow> k \<in> fst ` set ?d"
      by (intro canonical_key_fixed) simp
    with that show ?thesis unfolding pythonize_data_keys[OF assms]
      by (simp add: AList.dom_update)
  qed
  have "\<not> sublist ''{attribution.'' s" if s: "map_of record ''attribution'' = Some (JStr s)" for s
  proof -
    from s have "(''attribution'', JStr s) \<in> set record" by (rule map_of_SomeD)
    with pythonize_data_items[OF assms] obtain k v where
      "pythonize_item attributions (k, v) = Inr (''attribution'', JStr s)" by force
    from pythonize_item_attribution[OF this] show ?thesis by simp
  qed
  moreover have "''name'' \<in> fst ` set record"
  proof -
    have "''name'' \<in> canonical_key ` fst ` set ?d \<longleftrightarrow> ''name'' \<in> fst ` set ?d"
      by (intro canonical_key_fixed) simp
    then show ?thesis unfolding pythonize_data_keys[OF assms] by (simp add: AList.dom_update)
  qed
  ultimately show "resolved_record record" by (simp add: resolved_record_def)
qed

lemma named_record:
  assumes "distinct (map fst m)"
    and "pythonize_data attributions (AList.update ''name'' (JStr n) m) = Inr record"
  shows "map_of record ''name'' = Some (JStr n)"
    and "plain_key k \<Longrightarrow> map_of record k = map_of m k"
proof -
  let ?d = "AList.update ''name'' (JStr n) m"
  have dd: "distinct (map fst ?d)" using assms(1) by (simp add: AList.distinct_update)
  have "map_of record ''name'' = map_of ?d ''name''"
    by (rule pythonize_data_passthrough[OF dd assms(2)]) simp
  then show name: "map_of record ''name'' = Some (JStr n)" by (simp add: AList.update_conv')
  show "map_of record k = map_of m k" if "plain_key k"
  proof -
    from that have "map_of record k = map_of ?d k"
      by (intro pythonize_data_passthrough[OF dd assms(2)]) (simp add: plain_key_def)
    with that show ?thesis by (simp add: AList.update_conv' plain_key_def)
  qed
qed

lemma wf_json_lookup:
  assumes "wf_json (JObj d)" and "map_of d k = Some v"
  shows "wf_json v"
proof -
  from assms(2) have "(k, v) \<in> set d" by (rule map_of_SomeD)
  with assms(1) show ?thesis by fastforce
qed

lemma variant_keys_distinct:
  assumes "wf_json var" and "variant_keys_of var = Inr vk"
  shows "distinct (map fst vk)"
proof (cases var)
  case (JStr s)
  with assms(2) show ?thesis by auto
next
  case (JObj d)
  with assms(1) have dd: "distinct (map fst d)" by simp
  show ?thesis
  proof (cases "map_of d ''options''")
    case None
    with assms(2) JObj dd show ?thesis by (auto simp: dict_merge_Nil)
  next
    case (Some ov)
    with assms(2) JObj obtain vo where "ov = JObj vo"
      and vk: "vk = dict_merge (AList.delete ''options'' d) vo"
      by (cases ov) auto
    show ?thesis unfolding vk by (intro distinct_dict_merge AList.distinct_delete dd)
  qed
qed (use assms(2) in auto)

lemma process_variants_fail:
  assumes "(variant, var) \<in> set vs"
    and "process_variant attributions name pk variant var = Inl e"
  shows "\<exists>e'. process_variants attributions name pk vs acc = Inl e'"
  using assms(1)
proof (induction vs arbitrary: acc)
  case Nil
  then show ?case by simp
next
  case (Cons vv vs)
  obtain variant' var' where vv: "vv = (variant', var')" by (cases vv)
  show ?case
  proof (cases "process_variant attributions name pk variant' var'")
    case (Inl e1)
    then show ?thesis by (simp add: vv)
  next
    case (Inr r1)
    with assms(2) have "(variant', var') \<noteq> (variant, var)" by auto
    with Cons.prems vv have "(variant, var) \<in> set vs" by auto
    from Cons.IH[OF this] Inr show ?thesis by (simp add: vv)
  qed
qed

lemma process_providers_fail:
  assumes "(p, entry) \<in> set ps"
    and "process_provider attributions data p = Inl e"
  shows "\<exists>e'. process_providers attributions data ps acc = Inl e'"
  using assms(1)
proof (induction ps arbitrary: acc)
  case Nil
  then show ?case by simp
next
  case (Cons pe ps)
  obtain p' entry' where pe: "pe = (p', entry')" by (cases pe)
  show ?case
  proof (cases "process_provider attributions data p'")
    case (Inl e1)
    then show ?thesis by (simp add: pe)
  next
    case (Inr r1)
    with assms(2) have "p' \<noteq> p" by auto
    with Cons.prems pe have "(p, entry) \<in> set ps" by auto
    from Cons.IH[OF this] Inr show ?thesis by (simp add: pe)
  qed
qed

lemma process_data_fail:
  assumes "attribution_of catalog ''OpenStreetMap'' = Inr (JStr osm)"
    and "attribution_of catalog ''Esri'' = Inr (JStr esri)"
    and "attribution_of catalog ''OpenMapSurfer'' = Inr (JStr oms)"
    and "map_of catalog p = Some entry"
    and "process_provider
           (named_table [(''OpenStreetMap'', osm), (''Esri'', esri), (''OpenMapSurfer'', oms)])
           catalog p = Inl e"
  shows "\<exists>e'. process_data catalog = Inl e'"
proof -
  from assms(4) have "(p, entry) \<in> set catalog" by (rule map_of_SomeD)
  from process_providers_fail[OF this assms(5), of "[]"] assms(1-3) show ?thesis
    by (simp add: process_data_def named_table_def placeholder_def)
qed

lemma map_of_base_keys:
  assumes "distinct (map fst options)"
  shows "map_of (base_keys entry options) k = base_fields entry options k"
proof -
  have "map_of (base_keys entry options)
        = map_of (AList.delete ''options'' (AList.delete ''variants'' entry)) ++ map_of options"
    unfolding base_keys_def by (rule map_of_dict_merge[OF assms])
  then show ?thesis
    by (auto simp: base_fields_def map_add_def AList.delete_conv' split: option.splits)
qed

lemma variant_keys_fields:
  assumes "wf_json var" and "variant_keys_of var = Inr vk"
  shows "map_of vk k = variant_fields var k"
proof (cases var)
  case (JStr s)
  with assms(2) show ?thesis by auto
next
  case (JObj d)
  show ?thesis
  proof (cases "map_of d ''options''")
    case None
    with assms(2) JObj show ?thesis by (auto simp: dict_merge_Nil)
  next
    case (Some ov)
    with assms(2) JObj obtain vo where ov: "ov = JObj vo"
      and vk: "vk = dict_merge (AList.delete ''options'' d) vo"
      by (cases ov) auto
    from wf_json_lookup[OF assms(1)[unfolded JObj] Some] ov have "distinct (map fst vo)" by simp
    from map_of_dict_merge[OF this] have "map_of vk = map_of (AList.delete ''options'' d) ++ map_of vo"
      unfolding vk .
    with Some ov JObj show ?thesis
      by (auto simp: map_add_def AList.delete_conv' split: option.splits)
  qed
qed (use assms(2) in auto)

section \<open>What the code changes in the store\<close>

lemma prefix_update_fresh:
  assumes "prefix h0 h" and "length h0 \<le> a"
  shows "prefix h0 (h[a := x])"
proof -
  from assms(1) obtain r where "h = h0 @ r" by (auto simp: prefix_def)
  with assms(2) have "h[a := x] = h0 @ r[a - length h0 := x]" by (simp add: list_update_append)
  then show ?thesis by simp
qed

lemma st_pythonize_data_frame:
  "prefix h0 h \<Longrightarrow> prefix h0 (snd (st_pythonize_data h attributions d))"
  by (auto simp: st_pythonize_data_def alloc_def split: sum.splits)

lemma st_variant_keys_frame:
  assumes "prefix h0 h"
  shows "prefix h0 (snd (st_variant_keys h var))"
proof -
  from assms have "length h0 \<le> length h" by (rule prefix_length_le)
  with assms show ?thesis
    by (auto simp: st_variant_keys_def alloc_def Let_def
        split: pval.splits option.splits intro!: prefix_update_fresh)
qed

lemma st_process_variant_frame:
  assumes "prefix h0 h"
  shows "prefix h0 (snd (st_process_variant h attributions name pk variant var))"
proof (cases "st_variant_keys h var")
  case (Pair res h1)
  from st_variant_keys_frame[OF assms, of var] Pair have p1: "prefix h0 h1" by simp
  show ?thesis
  proof (cases res)
    case (Inl e)
    with Pair p1 show ?thesis by (simp add: st_process_variant_def)
  next
    case (Inr vk)
    let ?h2 = "h1 @ [dict_merge (h1 ! pk) (h1 ! vk)]"
    have "prefix h0 (?h2[length h1 := AList.update ''name'' (PStr (name @ ''.'' @ variant)) (?h2 ! length h1)])"
      using p1 by (intro prefix_update_fresh) (simp_all add: prefix_length_le)
    from st_pythonize_data_frame[OF this] Pair Inr show ?thesis
      by (simp add: st_process_variant_def alloc_def)
  qed
qed

lemma st_process_variants_frame:
  "prefix h0 h \<Longrightarrow> length h0 \<le> result \<Longrightarrow>
   prefix h0 (snd (st_process_variants h attributions name pk vs keys result))"
proof (induction keys arbitrary: h)
  case Nil
  then show ?case by simp
next
  case (Cons variant rest)
  show ?case
  proof (cases "st_getitem h (PRef vs) variant")
    case (Inl e)
    with Cons.prems show ?thesis by simp
  next
    case (Inr var)
    obtain res h1 where pv: "st_process_variant h attributions name pk variant var = (res, h1)"
      by (cases "st_process_variant h attributions name pk variant var")
    from st_process_variant_frame[OF Cons.prems(1), of attributions name pk variant var] pv
    have p1: "prefix h0 h1" by simp
    show ?thesis
    proof (cases res)
      case (Inl e)
      with Inr pv p1 show ?thesis by simp
    next
      case r: (Inr vk)
      have "prefix h0 (h1[result := AList.update variant (PRef vk) (h1 ! result)])"
        using p1 Cons.prems(2) by (rule prefix_update_fresh)
      from Cons.IH[OF this Cons.prems(2)] Inr pv r show ?thesis by simp
    qed
  qed
qed

lemma st_process_provider_frame:
  assumes "prefix h0 h"
  shows "prefix h0 (snd (st_process_provider h attributions data name))"
proof -
  from assms have "length h0 \<le> length h" by (rule prefix_length_le)
  with assms show ?thesis
    by (auto simp: st_process_provider_def alloc_def Let_def
        split: option.splits pval.splits
        intro!: st_pythonize_data_frame st_process_variants_frame prefix_update_fresh)
qed

lemma st_process_providers_frame:
  "prefix h0 h \<Longrightarrow> length h0 \<le> result \<Longrightarrow>
   prefix h0 (snd (st_process_providers h attributions data ps result))"
proof (induction ps arbitrary: h)
  case Nil
  then show ?case by simp
next
  case (Cons provider rest)
  obtain res h1 where pp: "st_process_provider h attributions data provider = (res, h1)"
    by (cases "st_process_provider h attributions data provider")
  from st_process_provider_frame[OF Cons.prems(1), of attributions data provider] pp
  have p1: "prefix h0 h1" by simp
  show ?case
  proof (cases res)
    case (Inl e)
    with pp p1 show ?thesis by simp
  next
    case (Inr r)
    have "prefix h0 (h1[result := AList.update provider (PRef r) (h1 ! result)])"
      using p1 Cons.prems(2) by (rule prefix_update_fresh)
    from Cons.IH[OF this Cons.prems(2)] pp Inr show ?thesis by simp
  qed
qed

section \<open>The round-trip example\<close>

text \<open>
  Claim C1 as stated fails: \<open>process_data\<close> first builds the attribution table from the
  entries \<open>OpenStreetMap\<close>, \<open>Esri\<close> and \<open>OpenMapSurfer\<close>, and the one-provider catalog
  has no \<open>Esri\<close> entry, so the lookup raises \<^verbatim>\<open>KeyError('Esri')\<close>.
\<close>

theorem process_data_roundtrip_counterexample:
  "process_data c1_raw = Inl (KeyError ''Esri'')"
  by (simp add: process_data_def attribution_of_def c1_raw_def)

text \<open>
  Claim C1, amended. Per-provider processing of the one-provider catalog yields the
  record of the claim for every attribution table, and normalising the catalog that has
  the same \<open>OpenStreetMap\<close> entry together with \<open>Esri\<close> and \<open>OpenMapSurfer\<close> entries
  succeeds and maps \<open>OpenStreetMap\<close> to that record. The record has the four entries
  the claim lists; the code inserts \<open>name\<close> last, which two Python dicts that are
  compared with \<^verbatim>\<open>==\<close> do not distinguish.
\<close>

theorem process_data_roundtrip:
  "(\<forall>attributions. process_provider attributions c1_raw ''OpenStreetMap'' = Inr c1_record)
   \<and> process_data (c1_raw @ c1_others) =
       Inr [(''OpenStreetMap'', JObj c1_record),
            (''Esri'', JObj [(''url'', JStr ''http://esri/{z}/{y}/{x}''),
                             (''attribution'', JStr ''Tiles Esri''),
                             (''name'', JStr ''Esri'')]),
            (''OpenMapSurfer'', JObj [(''url'', JStr ''http://oms/{z}/{x}/{y}''),
                                      (''attribution'', JStr ''Imagery GIScience''),
                                      (''name'', JStr ''OpenMapSurfer'')])]
   \<and> set c1_record = set c1_expected
   \<and> distinct (map fst c1_record) \<and> distinct (map fst c1_expected)"
proof -
  have a: "\<forall>attributions. process_provider attributions c1_raw ''OpenStreetMap'' = Inr c1_record"
    by (simp add: process_provider_def c1_raw_def c1_record_def dict_merge_def
        pythonize_data_def pythonize_item_def rename_keys_def dict_of_def sublist_Cons_right)
  have b: "process_data (c1_raw @ c1_others) =
       Inr [(''OpenStreetMap'', JObj c1_record),
            (''Esri'', JObj [(''url'', JStr ''http://esri/{z}/{y}/{x}''),
                             (''attribution'', JStr ''Tiles Esri''),
                             (''name'', JStr ''Esri'')]),
            (''OpenMapSurfer'', JObj [(''url'', JStr ''http://oms/{z}/{x}/{y}''),
                                      (''attribution'', JStr ''Imagery GIScience''),
                                      (''name'', JStr ''OpenMapSurfer'')])]"
    by code_simp
  have c: "set c1_record = set c1_expected"
    by (auto simp: c1_record_def c1_expected_def)
  have d: "distinct (map fst c1_record) \<and> distinct (map fst c1_expected)"
    by (simp add: c1_record_def c1_expected_def)
  from a b c d show ?thesis by blast
qed

section \<open>Unregistered attribution placeholders\<close>

text \<open>
  Claim C2. Let the attribution table hold the tokens \<^verbatim>\<open>{attribution.Name}\<close> of some
  provider names, with strings as resolved attributions, and let the \<open>attribution\<close>
  field of a record contain a token \<^verbatim>\<open>{attribution.x}\<close> whose name \<open>x\<close> is not in the
  table (names are free of braces). Then field renaming fails and returns no record.
  When the \<open>url\<close> of the record, if present, is a string, as the data model has it, no
  other item can fail before the \<open>attribution\<close> item is reached, and the failure is the
  unknown-attribution \<^verbatim>\<open>ValueError\<close>, whose value still contains the unregistered
  token. When the record is the one that per-provider processing makes for a provider
  without variants, or for a variant of a provider, of a catalog with this attribution
  table, then \<open>process_data\<close> fails on the catalog and produces no output.
\<close>

theorem unknown_attribution_raises:
  assumes "\<forall>(name, attr) \<in> set entries. brace_free name"
    and "brace_free x" and "x \<notin> fst ` set entries"
    and "map_of data ''attribution'' = Some (JStr (l @ placeholder x @ r))"
  shows "(\<exists>e. pythonize_data (named_table entries) data = Inl e)
    \<and> (distinct (map fst data) \<longrightarrow> (\<forall>v. map_of data ''url'' = Some v \<longrightarrow> (\<exists>u. v = JStr u)) \<longrightarrow>
         (\<exists>v'. pythonize_data (named_table entries) data = Inl (ValueError (JStr v'))
               \<and> sublist (placeholder x) v'))
    \<and> (\<forall>catalog osm esri oms p entry options.
          entries = [(''OpenStreetMap'', osm), (''Esri'', esri), (''OpenMapSurfer'', oms)] \<longrightarrow>
          attribution_of catalog ''OpenStreetMap'' = Inr (JStr osm) \<longrightarrow>
          attribution_of catalog ''Esri'' = Inr (JStr esri) \<longrightarrow>
          attribution_of catalog ''OpenMapSurfer'' = Inr (JStr oms) \<longrightarrow>
          map_of catalog p = Some (JObj entry) \<longrightarrow> lacks_variants entry \<longrightarrow>
          map_of entry ''options'' = Some (JObj options) \<longrightarrow>
          data = AList.update ''name'' (JStr p) (base_keys entry options) \<longrightarrow>
          (\<exists>e. process_data catalog = Inl e))
    \<and> (\<forall>catalog osm esri oms p entry options vs variant var variant_keys.
          entries = [(''OpenStreetMap'', osm), (''Esri'', esri), (''OpenMapSurfer'', oms)] \<longrightarrow>
          attribution_of catalog ''OpenStreetMap'' = Inr (JStr osm) \<longrightarrow>
          attribution_of catalog ''Esri'' = Inr (JStr esri) \<longrightarrow>
          attribution_of catalog ''OpenMapSurfer'' = Inr (JStr oms) \<longrightarrow>
          map_of catalog p = Some (JObj entry) \<longrightarrow>
          map_of entry ''variants'' = Some (JObj vs) \<longrightarrow>
          map_of entry ''options'' = Some (JObj options) \<longrightarrow>
          (variant, var) \<in> set vs \<longrightarrow> variant_keys_of var = Inr variant_keys \<longrightarrow>
          data = AList.update ''name'' (JStr (p @ ''.'' @ variant))
                   (dict_merge (base_keys entry options) variant_keys) \<longrightarrow>
          (\<exists>e. process_data catalog = Inl e))"
proof -
  from pythonize_data_unknown_fails[OF assms] obtain e where
    e: "pythonize_data (named_table entries) data = Inl e" by blast
  have a: "\<exists>e. pythonize_data (named_table entries) data = Inl e" using e by blast
  have b: "distinct (map fst data) \<longrightarrow> (\<forall>v. map_of data ''url'' = Some v \<longrightarrow> (\<exists>u. v = JStr u)) \<longrightarrow>
         (\<exists>v'. pythonize_data (named_table entries) data = Inl (ValueError (JStr v'))
               \<and> sublist (placeholder x) v')"
    using pythonize_data_unknown[OF assms] by blast
  have c: "\<forall>catalog osm esri oms p entry options.
          entries = [(''OpenStreetMap'', osm), (''Esri'', esri), (''OpenMapSurfer'', oms)] \<longrightarrow>
          attribution_of catalog ''OpenStreetMap'' = Inr (JStr osm) \<longrightarrow>
          attribution_of catalog ''Esri'' = Inr (JStr esri) \<longrightarrow>
          attribution_of catalog ''OpenMapSurfer'' = Inr (JStr oms) \<longrightarrow>
          map_of catalog p = Some (JObj entry) \<longrightarrow> lacks_variants entry \<longrightarrow>
          map_of entry ''options'' = Some (JObj options) \<longrightarrow>
          data = AList.update ''name'' (JStr p) (base_keys entry options) \<longrightarrow>
          (\<exists>e. process_data catalog = Inl e)"
  proof (intro allI impI)
    fix catalog osm esri oms p entry options
    assume c1: "entries = [(''OpenStreetMap'', osm), (''Esri'', esri), (''OpenMapSurfer'', oms)]"
      and c2: "attribution_of catalog ''OpenStreetMap'' = Inr (JStr osm)"
      and c3: "attribution_of catalog ''Esri'' = Inr (JStr esri)"
      and c4: "attribution_of catalog ''OpenMapSurfer'' = Inr (JStr oms)"
      and c5: "map_of catalog p = Some (JObj entry)" and c6: "lacks_variants entry"
      and c7: "map_of entry ''options'' = Some (JObj options)"
      and c8: "data = AList.update ''name'' (JStr p) (base_keys entry options)"
    have "process_provider (named_table entries) catalog p = Inl e"
      using e unfolding process_provider_leaf[OF c5 c6 c7] c8 .
    then show "\<exists>e. process_data catalog = Inl e"
      unfolding c1 by (rule process_data_fail[OF c2 c3 c4 c5])
  qed
  have d: "\<forall>catalog osm esri oms p entry options vs variant var variant_keys.
          entries = [(''OpenStreetMap'', osm), (''Esri'', esri), (''OpenMapSurfer'', oms)] \<longrightarrow>
          attribution_of catalog ''OpenStreetMap'' = Inr (JStr osm) \<longrightarrow>
          attribution_of catalog ''Esri'' = Inr (JStr esri) \<longrightarrow>
          attribution_of catalog ''OpenMapSurfer'' = Inr (JStr oms) \<longrightarrow>
          map_of catalog p = Some (JObj entry) \<longrightarrow>
          map_of entry ''variants'' = Some (JObj vs) \<longrightarrow>
          map_of entry ''options'' = Some (JObj options) \<longrightarrow>
          (variant, var) \<in> set vs \<longrightarrow> variant_keys_of var = Inr variant_keys \<longrightarrow>
          data = AList.update ''name'' (JStr (p @ ''.'' @ variant))
                   (dict_merge (base_keys entry options) variant_keys) \<longrightarrow>
          (\<exists>e. process_data catalog = Inl e)"
  proof (intro allI impI)
    fix catalog osm esri oms p entry options vs variant var variant_keys
    assume d1: "entries = [(''OpenStreetMap'', osm), (''Esri'', esri), (''OpenMapSurfer'', oms)]"
      and d2: "attribution_of catalog ''OpenStreetMap'' = Inr (JStr osm)"
      and d3: "attribution_of catalog ''Esri'' = Inr (JStr esri)"
      and d4: "attribution_of catalog ''OpenMapSurfer'' = Inr (JStr oms)"
      and d5: "map_of catalog p = Some (JObj entry)"
      and d6: "map_of entry ''variants'' = Some (JObj vs)"
      and d7: "map_of entry ''options'' = Some (JObj options)"
      and d8: "(variant, var) \<in> set vs" and d9: "variant_keys_of var = Inr variant_keys"
      and d10: "data = AList.update ''name'' (JStr (p @ ''.'' @ variant))
                   (dict_merge (base_keys entry options) variant_keys)"
    have "process_variant (named_table entries) p (base_keys entry options) variant var = Inl e"
      using e d9 d10 by (simp add: process_variant_def)
    from process_variants_fail[OF d8 this, of "[]"]
    have "\<exists>e'. process_provider (named_table entries) catalog p = Inl e'"
      unfolding process_provider_variants[OF d5 d6 d7] .
    then obtain e' where "process_provider (named_table entries) catalog p = Inl e'" by blast
    then show "\<exists>e. process_data catalog = Inl e"
      unfolding d1 by (rule process_data_fail[OF d2 d3 d4 d5])
  qed
  show ?thesis by (intro conjI a b c d)
qed

text \<open>
  An instance: the provider \<open>Hydda\<close> with \<^verbatim>\<open>{attribution.Unknown}\<close>, its record, and
  its catalog, on which \<open>process_data\<close> raises the unknown-attribution error.
\<close>

theorem unknown_attribution_raises_witness:
  "brace_free ''Unknown'' \<and> ''Unknown'' \<notin> fst ` set c2_entries
   \<and> map_of c2_record ''attribution'' =
       Some (JStr (''Map '' @ placeholder ''Unknown'' @ '', {attribution.Esri}''))
   \<and> distinct (map fst c2_record)
   \<and> (\<exists>v'. pythonize_data (named_table c2_entries) c2_record = Inl (ValueError (JStr v'))
            \<and> sublist (placeholder ''Unknown'') v')
   \<and> pythonize_data (named_table c2_entries) c2_record =
       Inl (ValueError (JStr ''Map {attribution.Unknown}, Tiles Esri''))
   \<and> (\<exists>e. process_data c2_catalog = Inl e)
   \<and> process_data c2_catalog = Inl (ValueError (JStr ''Map {attribution.Unknown}, Tiles Esri''))"
proof -
  let ?entry = "[(''url'', JStr ''http://hydda/{z}/{x}/{y}''),
             (''options'',
              JObj [(''maxZoom'', JNum 18),
                    (''attribution'', JStr ''Map {attribution.Unknown}, {attribution.Esri}'')])]"
  let ?options = "[(''maxZoom'', JNum 18),
                    (''attribution'', JStr ''Map {attribution.Unknown}, {attribution.Esri}'')]"
  have h1: "\<forall>(name, attr) \<in> set c2_entries. brace_free name"
    by (simp add: c2_entries_def brace_free_def)
  have h2: "brace_free ''Unknown''" by (simp add: brace_free_def)
  have h3: "''Unknown'' \<notin> fst ` set c2_entries" by (simp add: c2_entries_def)
  have h4: "map_of c2_record ''attribution'' =
       Some (JStr (''Map '' @ placeholder ''Unknown'' @ '', {attribution.Esri}''))"
    by (simp add: c2_record_def placeholder_def)
  have h5: "distinct (map fst c2_record)" by (simp add: c2_record_def)
  have h6: "\<forall>v. map_of c2_record ''url'' = Some v \<longrightarrow> (\<exists>u. v = JStr u)"
    by (simp add: c2_record_def)
  have k1: "c2_entries = [(''OpenStreetMap'', CHR 0xA9 # '' OSM''), (''Esri'', ''Tiles Esri''),
                 (''OpenMapSurfer'', ''Imagery GIScience'')]" by (simp add: c2_entries_def)
  have k2: "attribution_of c2_catalog ''OpenStreetMap'' = Inr (JStr (CHR 0xA9 # '' OSM''))"
    by (simp add: attribution_of_def c2_catalog_def)
  have k3: "attribution_of c2_catalog ''Esri'' = Inr (JStr ''Tiles Esri'')"
    by (simp add: attribution_of_def c2_catalog_def)
  have k4: "attribution_of c2_catalog ''OpenMapSurfer'' = Inr (JStr ''Imagery GIScience'')"
    by (simp add: attribution_of_def c2_catalog_def)
  have k5: "map_of c2_catalog ''Hydda'' = Some (JObj ?entry)" by (simp add: c2_catalog_def)
  have k6: "lacks_variants ?entry" by (simp add: lacks_variants_def)
  have k7: "map_of ?entry ''options'' = Some (JObj ?options)" by simp
  have k8: "c2_record = AList.update ''name'' (JStr ''Hydda'') (base_keys ?entry ?options)"
    by (simp add: c2_record_def base_keys_def dict_merge_def)
  have e1: "pythonize_data (named_table c2_entries) c2_record =
       Inl (ValueError (JStr ''Map {attribution.Unknown}, Tiles Esri''))"
    by code_simp
  have e2: "process_data c2_catalog = Inl (ValueError (JStr ''Map {attribution.Unknown}, Tiles Esri''))"
    by code_simp
  note t = unknown_attribution_raises[OF h1 h2 h3 h4]
  from t[THEN conjunct2, THEN conjunct1] h5 h6
  have r1: "\<exists>v'. pythonize_data (named_table c2_entries) c2_record = Inl (ValueError (JStr v'))
            \<and> sublist (placeholder ''Unknown'') v'" by blast
  have r2: "\<exists>e. process_data c2_catalog = Inl e"
    by (rule t[THEN conjunct2, THEN conjunct2, THEN conjunct1, rule_format,
          OF k1 k2 k3 k4 k5 k6 k7 k8])
  show ?thesis by (intro conjI h2 h3 h4 h5 r1 e1 r2 e2)
qed

section \<open>Attribution substitution\<close>




section \<open>Providers with variants\<close>

text \<open>
  Claim C4. For a provider entry with a dict of variants, on which per-provider
  processing succeeds, the result has exactly the variant short names as its keys, in
  their order. The entry of a variant is the record that field renaming makes of the
  variant-specific mapping merged over the provider's merged mapping \<open>base_keys\<close>, with
  \<open>name\<close> set to \<^verbatim>\<open><provider>.<variant>\<close>. The variant-specific mapping is the one the
  specification describes (\<open>variant_fields\<close>: the field \<open>variant\<close> for a plain string,
  else the fields of the variant's mapping with those of its nested options over them),
  and in the merge a field of the variant wins over a field of the provider
  (\<open>merged_fields\<close>). The record has that \<open>name\<close>; every field that renaming passes
  through has in the record the value it has in the merge; a url string of the merge is
  in the record with its renameable placeholders rewritten; an attribution string
  without placeholder is kept; and a renameable key of the merge is in the record under
  its canonical name, when the merge does not have that name already. The entry is a
  well-formed dict (no key twice, at any depth).
\<close>

theorem variant_records:
  assumes "map_of data name = Some (JObj entry)" and "wf_json (JObj entry)"
    and "map_of entry ''variants'' = Some (JObj vs)"
    and "map_of entry ''options'' = Some (JObj options)"
    and "process_provider attributions data name = Inr result"
  shows "map fst result = map fst vs
         \<and> (\<forall>(variant, var) \<in> set vs. \<exists>variant_keys record.
               variant_keys_of var = Inr variant_keys
               \<and> (\<forall>k. map_of variant_keys k = variant_fields var k)
               \<and> map_of result variant = Some (JObj record)
               \<and> pythonize_data attributions
                     (AList.update ''name'' (JStr (name @ ''.'' @ variant))
                        (dict_merge (base_keys entry options) variant_keys)) = Inr record
               \<and> map_of (dict_merge (base_keys entry options) variant_keys) =
                   map_of (base_keys entry options) ++ map_of variant_keys
               \<and> (\<forall>k. map_of (dict_merge (base_keys entry options) variant_keys) k =
                        merged_fields entry options var k)
               \<and> map_of record ''name'' = Some (JStr (name @ ''.'' @ variant))
               \<and> (\<forall>k. plain_key k \<longrightarrow>
                     map_of record k = (map_of (base_keys entry options) ++ map_of variant_keys) k)
               \<and> (\<forall>k. plain_key k \<longrightarrow> map_of record k = merged_fields entry options var k)
               \<and> (\<forall>u. merged_fields entry options var ''url'' = Some (JStr u) \<longrightarrow>
                     map_of record ''url'' = Some (JStr (rewrite_placeholders u)))
               \<and> (\<forall>a. merged_fields entry options var ''attribution'' = Some (JStr a) \<longrightarrow>
                     \<not> sublist ''{attribution.'' a \<longrightarrow>
                     map_of record ''attribution'' = Some (JStr a))
               \<and> (\<forall>(k, k') \<in> set rename_keys.
                     merged_fields entry options var k' = None \<longrightarrow>
                     map_of record k' = merged_fields entry options var k
                     \<and> map_of record k = None))"
proof -
  let ?pk = "base_keys entry options"
  from assms(2) have de: "distinct (map fst entry)" by simp
  from wf_json_lookup[OF assms(2,3)] have wvs: "wf_json (JObj vs)" .
  then have dvs: "distinct (map fst vs)" by simp
  from wf_json_lookup[OF assms(2,4)] have dopt: "distinct (map fst options)" by simp
  have pv: "process_variants attributions name ?pk vs [] = Inr result"
    using assms(5) unfolding process_provider_variants[OF assms(1,3,4)] .
  from process_variants_out[OF pv] obtain recs where
    all2: "list_all2 (\<lambda>vv r. process_variant attributions name ?pk (fst vv) (snd vv) = Inr r) vs recs"
    and res: "result = dict_merge [] (zip (map fst vs) (map JObj recs))" by blast
  from all2 have len: "length vs = length recs" by (rule list_all2_lengthD)
  then have keys: "map fst (zip (map fst vs) (map JObj recs)) = map fst vs" by simp
  with dvs have "dict_of (zip (map fst vs) (map JObj recs)) = zip (map fst vs) (map JObj recs)"
    by (intro dict_of_distinct) simp
  with res have res': "result = zip (map fst vs) (map JObj recs)" by (simp add: dict_of_def)
  have one: "\<exists>variant_keys record.
               variant_keys_of var = Inr variant_keys
               \<and> (\<forall>k. map_of variant_keys k = variant_fields var k)
               \<and> map_of result variant = Some (JObj record)
               \<and> pythonize_data attributions
                     (AList.update ''name'' (JStr (name @ ''.'' @ variant))
                        (dict_merge ?pk variant_keys)) = Inr record
               \<and> map_of (dict_merge ?pk variant_keys) = map_of ?pk ++ map_of variant_keys
               \<and> (\<forall>k. map_of (dict_merge ?pk variant_keys) k = merged_fields entry options var k)
               \<and> map_of record ''name'' = Some (JStr (name @ ''.'' @ variant))
               \<and> (\<forall>k. plain_key k \<longrightarrow> map_of record k = (map_of ?pk ++ map_of variant_keys) k)
               \<and> (\<forall>k. plain_key k \<longrightarrow> map_of record k = merged_fields entry options var k)
               \<and> (\<forall>u. merged_fields entry options var ''url'' = Some (JStr u) \<longrightarrow>
                     map_of record ''url'' = Some (JStr (rewrite_placeholders u)))
               \<and> (\<forall>a. merged_fields entry options var ''attribution'' = Some (JStr a) \<longrightarrow>
                     \<not> sublist ''{attribution.'' a \<longrightarrow>
                     map_of record ''attribution'' = Some (JStr a))
               \<and> (\<forall>(k, k') \<in> set rename_keys.
                     merged_fields entry options var k' = None \<longrightarrow>
                     map_of record k' = merged_fields entry options var k
                     \<and> map_of record k = None)"
    if vv: "(variant, var) \<in> set vs" for variant var
  proof -
    from all2_zip_lookup[OF all2 vv, of fst JObj] dvs obtain r where
      r: "process_variant attributions name ?pk variant var = Inr r"
      and look: "map_of result variant = Some (JObj r)" unfolding res' by auto
    let ?n = "JStr (name @ ''.'' @ variant)"
    from r obtain vk where vk: "variant_keys_of var = Inr vk"
      and py: "pythonize_data attributions (AList.update ''name'' ?n (dict_merge ?pk vk)) = Inr r"
      by (auto simp: process_variant_def split: sum.splits)
    let ?m = "dict_merge ?pk vk"
    let ?d = "AList.update ''name'' ?n ?m"
    from wvs vv have wvar: "wf_json var" by fastforce
    from variant_keys_distinct[OF wvar vk] have dvk: "distinct (map fst vk)" .
    have vf: "\<forall>k. map_of vk k = variant_fields var k"
      using variant_keys_fields[OF wvar vk] by blast
    have m: "map_of ?m = map_of ?pk ++ map_of vk"
      by (rule map_of_dict_merge[OF dvk])
    have mf: "map_of ?m k = merged_fields entry options var k" for k
      unfolding m using vf map_of_base_keys[OF dopt, of entry k]
      by (simp add: merged_fields_def map_add_def split: option.splits)
    have dm: "distinct (map fst ?m)"
      by (intro distinct_dict_merge distinct_base_keys de)
    then have dd: "distinct (map fst ?d)" by (simp add: AList.distinct_update)
    have dk: "map_of ?d k = merged_fields entry options var k" if "k \<noteq> ''name''" for k
      using that mf[of k] by (simp add: AList.update_conv')
    note nr = named_record[OF dm py]
    have plain: "\<forall>k. plain_key k \<longrightarrow> map_of r k = (map_of ?pk ++ map_of vk) k"
      using nr(2) m by simp
    have plain': "\<forall>k. plain_key k \<longrightarrow> map_of r k = merged_fields entry options var k"
      using nr(2) mf by simp
    have url: "\<forall>u. merged_fields entry options var ''url'' = Some (JStr u) \<longrightarrow>
                 map_of r ''url'' = Some (JStr (rewrite_placeholders u))"
    proof (intro allI impI)
      fix u assume "merged_fields entry options var ''url'' = Some (JStr u)"
      with dk[of "''url''"] have "map_of ?d ''url'' = Some (JStr u)" by simp
      from pythonize_data_url[OF dd this py]
      show "map_of r ''url'' = Some (JStr (rewrite_placeholders u))" .
    qed
    have attr: "\<forall>a. merged_fields entry options var ''attribution'' = Some (JStr a) \<longrightarrow>
                 \<not> sublist ''{attribution.'' a \<longrightarrow> map_of r ''attribution'' = Some (JStr a)"
    proof (intro allI impI)
      fix a assume "merged_fields entry options var ''attribution'' = Some (JStr a)"
        and na: "\<not> sublist ''{attribution.'' a"
      with dk[of "''attribution''"] have "map_of ?d ''attribution'' = Some (JStr a)" by simp
      from pythonize_data_plain_attribution[OF dd this na py]
      show "map_of r ''attribution'' = Some (JStr a)" .
    qed
    have ren: "\<forall>(k, k') \<in> set rename_keys.
                 merged_fields entry options var k' = None \<longrightarrow>
                 map_of r k' = merged_fields entry options var k \<and> map_of r k = None"
    proof (intro ballI, clarify)
      fix k k' assume kk: "(k, k') \<in> set rename_keys"
        and none: "merged_fields entry options var k' = None"
      from kk have ne: "k \<noteq> ''name''" "k' \<noteq> ''name''" by (auto simp: rename_keys_def)
      from none dk[OF ne(2)] have "map_of ?d k' = None" by simp
      from pythonize_data_renamed[OF dd py kk this] dk[OF ne(1)]
      show "map_of r k' = merged_fields entry options var k \<and> map_of r k = None" by simp
    qed
    have mf': "\<forall>k. map_of ?m k = merged_fields entry options var k" using mf by blast
    show ?thesis
      by (intro exI[of _ vk] exI[of _ r] conjI vk vf look py m mf' nr(1) plain plain' url attr ren)
  qed
  have "map fst result = map fst vs" using res' keys by simp
  moreover have "\<forall>(variant, var) \<in> set vs. \<exists>variant_keys record.
               variant_keys_of var = Inr variant_keys
               \<and> (\<forall>k. map_of variant_keys k = variant_fields var k)
               \<and> map_of result variant = Some (JObj record)
               \<and> pythonize_data attributions
                     (AList.update ''name'' (JStr (name @ ''.'' @ variant))
                        (dict_merge ?pk variant_keys)) = Inr record
               \<and> map_of (dict_merge ?pk variant_keys) = map_of ?pk ++ map_of variant_keys
               \<and> (\<forall>k. map_of (dict_merge ?pk variant_keys) k = merged_fields entry options var k)
               \<and> map_of record ''name'' = Some (JStr (name @ ''.'' @ variant))
               \<and> (\<forall>k. plain_key k \<longrightarrow> map_of record k = (map_of ?pk ++ map_of variant_keys) k)
               \<and> (\<forall>k. plain_key k \<longrightarrow> map_of record k = merged_fields entry options var k)
               \<and> (\<forall>u. merged_fields entry options var ''url'' = Some (JStr u) \<longrightarrow>
                     map_of record ''url'' = Some (JStr (rewrite_placeholders u)))
               \<and> (\<forall>a. merged_fields entry options var ''attribution'' = Some (JStr a) \<longrightarrow>
                     \<not> sublist ''{attribution.'' a \<longrightarrow>
                     map_of record ''attribution'' = Some (JStr a))
               \<and> (\<forall>(k, k') \<in> set rename_keys.
                     merged_fields entry options var k' = None \<longrightarrow>
                     map_of record k' = merged_fields entry options var k
                     \<and> map_of record k = None)"
    using one by (intro ballI) (simp only: split_paired_all case_prod_conv)
  ultimately show ?thesis by (rule conjI)
qed

theorem variant_records_witness:
  "map_of [(''Stadia'', JObj c4_group)] ''Stadia'' = Some (JObj c4_group)
   \<and> wf_json (JObj c4_group)
   \<and> process_provider (named_table c2_entries) [(''Stadia'', JObj c4_group)] ''Stadia''
       = Inr c4_group_result
   \<and> map fst c4_group_result = [''Roads'', ''Night'', ''DE'']
   \<and> map_of c4_group_result ''DE'' =
       Some (JObj [(''url'', JStr ''http://de/{max_zoom}/{z}''), (''max_zoom'', JNum 5),
                   (''variant'', JStr ''base''),
                   (''attribution'', JStr (''Map '' @ CHR 0xA9 # '' OSM'')),
                   (''name'', JStr ''Stadia.DE'')])
   \<and> (\<exists>record. map_of c4_group_result ''DE'' = Some (JObj record)
         \<and> map_of record ''url'' = Some (JStr ''http://de/{max_zoom}/{z}'')
         \<and> map_of record ''max_zoom'' = Some (JNum 5)
         \<and> map_of record ''variant'' = Some (JStr ''base''))"
proof -
  let ?de = "JObj [(''url'', JStr ''http://de/{maxZoom}/{z}''), (''maxZoom'', JNum 5)]"
  let ?vs = "[(''Roads'', JStr ''roads''),
              (''Night'', JObj [(''url'', JStr ''http://night/{z}/{x}/{y}.png''),
                                (''options'', JObj [(''maxZoom'', JNum 8),
                                                    (''url'', JStr ''http://dark/{z}'')])]),
              (''DE'', ?de)]"
  let ?opts = "[(''maxZoom'', JNum 18), (''variant'', JStr ''base''),
                (''attribution'', JStr ''Map {attribution.OpenStreetMap}'')]"
  have h1: "map_of [(''Stadia'', JObj c4_group)] ''Stadia'' = Some (JObj c4_group)" by simp
  have h2: "wf_json (JObj c4_group)" by (simp add: c4_group_def)
  have h3: "map_of c4_group ''variants'' = Some (JObj ?vs)" by (simp add: c4_group_def)
  have h4: "map_of c4_group ''options'' = Some (JObj ?opts)" by (simp add: c4_group_def)
  have h5: "process_provider (named_table c2_entries) [(''Stadia'', JObj c4_group)] ''Stadia''
              = Inr c4_group_result" by code_simp
  have e: "map_of c4_group_result ''DE'' =
       Some (JObj [(''url'', JStr ''http://de/{max_zoom}/{z}''), (''max_zoom'', JNum 5),
                   (''variant'', JStr ''base''),
                   (''attribution'', JStr (''Map '' @ CHR 0xA9 # '' OSM'')),
                   (''name'', JStr ''Stadia.DE'')])"
    by (simp add: c4_group_result_def)
  have m1: "merged_fields c4_group ?opts ?de ''url'' = Some (JStr ''http://de/{maxZoom}/{z}'')"
    by code_simp
  have m2: "merged_fields c4_group ?opts ?de ''max_zoom'' = None" by code_simp
  have m3: "merged_fields c4_group ?opts ?de ''maxZoom'' = Some (JNum 5)" by code_simp
  have m4: "merged_fields c4_group ?opts ?de ''variant'' = Some (JStr ''base'')" by code_simp
  have rw: "rewrite_placeholders ''http://de/{maxZoom}/{z}'' = ''http://de/{max_zoom}/{z}''"
    by code_simp
  have pk: "plain_key ''variant''" by code_simp
  have rk: "(''maxZoom'', ''max_zoom'') \<in> set rename_keys" by (simp add: rename_keys_def)
  note t = variant_records[OF h1 h2 h3 h4 h5]
  from t have k: "map fst c4_group_result = map fst ?vs" by (rule conjunct1)
  have mem: "(''DE'', ?de) \<in> set ?vs" by simp
  from bspec[OF conjunct2[OF t] mem] obtain vk rcd where
    a: "map_of c4_group_result ''DE'' = Some (JObj rcd)"
    and b: "\<forall>k. plain_key k \<longrightarrow> map_of rcd k = merged_fields c4_group ?opts ?de k"
    and c: "\<forall>u. merged_fields c4_group ?opts ?de ''url'' = Some (JStr u) \<longrightarrow>
               map_of rcd ''url'' = Some (JStr (rewrite_placeholders u))"
    and d: "\<forall>(k, k') \<in> set rename_keys.
               merged_fields c4_group ?opts ?de k' = None \<longrightarrow>
               map_of rcd k' = merged_fields c4_group ?opts ?de k \<and> map_of rcd k = None"
    unfolding case_prod_conv by (elim exE conjE)
  from c m1 rw have u: "map_of rcd ''url'' = Some (JStr ''http://de/{max_zoom}/{z}'')" by simp
  from bspec[OF d rk] m2 m3 have z: "map_of rcd ''max_zoom'' = Some (JNum 5)" by simp
  from b pk m4 have v: "map_of rcd ''variant'' = Some (JStr ''base'')" by simp
  from a u z v have ex: "\<exists>record. map_of c4_group_result ''DE'' = Some (JObj record)
         \<and> map_of record ''url'' = Some (JStr ''http://de/{max_zoom}/{z}'')
         \<and> map_of record ''max_zoom'' = Some (JNum 5)
         \<and> map_of record ''variant'' = Some (JStr ''base'')" by blast
  from k have k': "map fst c4_group_result = [''Roads'', ''Night'', ''DE'']" by simp
  show ?thesis by (intro conjI h1 h2 h5 k' e ex)
qed

section \<open>Providers without variants\<close>

text \<open>
  Claim C5 as stated fails in its last part: the options are merged into the record key
  by key, so a key \<open>options\<close> (or \<open>variants\<close>) of the options sub-mapping itself is a
  key of the record.
\<close>

theorem leaf_record_counterexample:
  "process_data (c1_raw @ c1_others @ c5_raw) =
     Inr [(''OpenStreetMap'', JObj c1_record),
          (''Esri'', JObj [(''url'', JStr ''http://esri/{z}/{y}/{x}''),
                           (''attribution'', JStr ''Tiles Esri''),
                           (''name'', JStr ''Esri'')]),
          (''OpenMapSurfer'', JObj [(''url'', JStr ''http://oms/{z}/{x}/{y}''),
                                    (''attribution'', JStr ''Imagery GIScience''),
                                    (''name'', JStr ''OpenMapSurfer'')]),
          (''Stamen'', JObj [(''url'', JStr ''http://stamen/{z}/{x}/{y}.png''),
                             (''options'', JStr ''x''),
                             (''max_zoom'', JNum 20),
                             (''name'', JStr ''Stamen'')])]"
  by code_simp

text \<open>
  Claim C5, amended. For a provider entry lacking variants, on which per-provider
  processing succeeds, the record is what field renaming makes of the provider's
  remaining top-level fields merged with its options, with \<open>name\<close> set to the provider
  name: in the merge a field of the options wins, the record has that \<open>name\<close>, and every
  field that renaming passes through has in the record the value it has in the merge.
  The record has a key \<open>variants\<close> or \<open>options\<close> exactly when the options sub-mapping
  has that key; the provider's own \<open>variants\<close> and \<open>options\<close> entries are consumed.
\<close>

theorem leaf_record:
  assumes "map_of data name = Some (JObj entry)" and "wf_json (JObj entry)"
    and "lacks_variants entry" and "map_of entry ''options'' = Some (JObj options)"
    and "process_provider attributions data name = Inr record"
  shows "pythonize_data attributions (AList.update ''name'' (JStr name) (base_keys entry options))
           = Inr record
         \<and> map_of (base_keys entry options) =
             map_of (AList.delete ''options'' (AList.delete ''variants'' entry)) ++ map_of options
         \<and> map_of record ''name'' = Some (JStr name)
         \<and> (\<forall>k. plain_key k \<longrightarrow>
               map_of record k =
               (map_of (AList.delete ''options'' (AList.delete ''variants'' entry)) ++ map_of options) k)
         \<and> (''variants'' \<in> fst ` set record \<longleftrightarrow> ''variants'' \<in> fst ` set options)
         \<and> (''options'' \<in> fst ` set record \<longleftrightarrow> ''options'' \<in> fst ` set options)"
proof -
  from assms(2) have de: "distinct (map fst entry)" by simp
  from assms(4) have "(''options'', JObj options) \<in> set entry" by (rule map_of_SomeD)
  with assms(2) have "wf_json (JObj options)" by fastforce
  then have dopt: "distinct (map fst options)" by simp
  have py: "pythonize_data attributions (AList.update ''name'' (JStr name) (base_keys entry options))
           = Inr record"
    using assms(5) unfolding process_provider_leaf[OF assms(1,3,4)] .
  have merge: "map_of (base_keys entry options) =
      map_of (AList.delete ''options'' (AList.delete ''variants'' entry)) ++ map_of options"
    unfolding base_keys_def by (rule map_of_dict_merge[OF dopt])
  note nr = named_record[OF distinct_base_keys[OF de] py]
  have v: "''variants'' \<in> fst ` set record \<longleftrightarrow> ''variants'' \<in> fst ` set options"
    using record_keys(1)[OF py, of "''variants''"] by (simp add: keys_base_keys)
  have o: "''options'' \<in> fst ` set record \<longleftrightarrow> ''options'' \<in> fst ` set options"
    using record_keys(1)[OF py, of "''options''"] by (simp add: keys_base_keys)
  from py merge nr(1) nr(2) v o show ?thesis by simp
qed

theorem leaf_record_witness:
  "map_of [(''Stamen'', JObj c5_entry)] ''Stamen'' = Some (JObj c5_entry)
   \<and> wf_json (JObj c5_entry) \<and> lacks_variants c5_entry
   \<and> map_of c5_entry ''options'' = Some (JObj [(''maxZoom'', JNum 20), (''subdomains'', JStr ''ab'')])
   \<and> process_provider (named_table c2_entries) [(''Stamen'', JObj c5_entry)] ''Stamen'' =
       Inr [(''url'', JStr ''http://stamen/{z}/{x}/{y}.png''), (''subdomains'', JStr ''ab''),
            (''max_zoom'', JNum 20), (''name'', JStr ''Stamen'')]
   \<and> map_of [(''url'', JStr ''http://stamen/{z}/{x}/{y}.png''), (''subdomains'', JStr ''ab''),
              (''max_zoom'', JNum 20), (''name'', JStr ''Stamen'')] ''name'' = Some (JStr ''Stamen'')
   \<and> ''options'' \<notin> fst ` set [(''url'', JStr ''http://stamen/{z}/{x}/{y}.png''),
         (''subdomains'', JStr ''ab''), (''max_zoom'', JNum 20), (''name'', JStr ''Stamen'')]"
proof -
  let ?opts = "[(''maxZoom'', JNum 20), (''subdomains'', JStr ''ab'')]"
  let ?rec = "[(''url'', JStr ''http://stamen/{z}/{x}/{y}.png''), (''subdomains'', JStr ''ab''),
            (''max_zoom'', JNum 20), (''name'', JStr ''Stamen'')]"
  have h1: "map_of [(''Stamen'', JObj c5_entry)] ''Stamen'' = Some (JObj c5_entry)" by simp
  have h2: "wf_json (JObj c5_entry)" by (simp add: c5_entry_def)
  have h3: "lacks_variants c5_entry" by (simp add: c5_entry_def lacks_variants_def)
  have h4: "map_of c5_entry ''options'' = Some (JObj ?opts)" by (simp add: c5_entry_def)
  have h5: "process_provider (named_table c2_entries) [(''Stamen'', JObj c5_entry)] ''Stamen'' = Inr ?rec" by code_simp
  have "''options'' \<notin> fst ` set ?opts" by simp
  with leaf_record[OF h1 h2 h3 h4 h5] h1 h2 h3 h4 h5 show ?thesis by blast
qed

section \<open>Idempotence of field renaming\<close>

text \<open>
  Claim C6. A record that \<open>pythonize_data\<close> has returned is returned unchanged by a
  second application; it has no key \<open>maxZoom\<close> or \<open>minZoom\<close>, and an attribution
  string in it contains no \<^verbatim>\<open>{attribution.\<close>.
\<close>

theorem pythonize_data_idempotent:
  assumes "pythonize_data attributions d = Inr d'"
  shows "pythonize_data attributions d' = Inr d'
         \<and> ''maxZoom'' \<notin> fst ` set d' \<and> ''minZoom'' \<notin> fst ` set d'
         \<and> (\<forall>s. map_of d' ''attribution'' = Some (JStr s) \<longrightarrow> \<not> sublist ''{attribution.'' s)"
proof -
  have "\<forall>kv' \<in> set d'. pythonize_item attributions kv' = Inr kv'"
    using pythonize_data_items[OF assms] pythonize_item_idem by blast
  then have "pythonize_items attributions d' = Inr d'" by (rule pythonize_items_fixed)
  with pythonize_data_distinct[OF assms] have idem: "pythonize_data attributions d' = Inr d'"
    by (simp add: pythonize_data_def dict_of_distinct)
  have ck: "canonical_key k \<noteq> ''maxZoom'' \<and> canonical_key k \<noteq> ''minZoom''" for k
    by (simp add: canonical_key_def rename_keys_def)
  have keys: "''maxZoom'' \<notin> fst ` set d' \<and> ''minZoom'' \<notin> fst ` set d'"
    unfolding pythonize_data_keys[OF assms] using ck by (metis imageE)
  have "\<not> sublist ''{attribution.'' s" if s: "map_of d' ''attribution'' = Some (JStr s)" for s
  proof -
    from s have "(''attribution'', JStr s) \<in> set d'" by (rule map_of_SomeD)
    with pythonize_data_items[OF assms] obtain k v where
      "pythonize_item attributions (k, v) = Inr (''attribution'', JStr s)" by force
    from pythonize_item_attribution[OF this] show ?thesis by simp
  qed
  with idem keys show ?thesis by blast
qed

theorem pythonize_data_idempotent_witness:
  "pythonize_data (named_table c2_entries) c6_record = Inr c6_renamed
   \<and> pythonize_data (named_table c2_entries) c6_renamed = Inr c6_renamed
   \<and> ''maxZoom'' \<notin> fst ` set c6_renamed \<and> ''minZoom'' \<notin> fst ` set c6_renamed"
proof -
  have h: "pythonize_data (named_table c2_entries) c6_record = Inr c6_renamed" by code_simp
  from pythonize_data_idempotent[OF h] h show ?thesis by blast
qed

section \<open>The url rewrite\<close>

text \<open>
  Claim C7. In a record with a url string, field renaming keeps the key \<open>url\<close> and
  turns the value into \<open>rewrite_placeholders\<close> of it: every \<^verbatim>\<open>{maxZoom}\<close> becomes
  \<^verbatim>\<open>{max_zoom}\<close>, every \<^verbatim>\<open>{minZoom}\<close> becomes \<^verbatim>\<open>{min_zoom}\<close>, and every other
  character is copied. This is what the two calls of \<^verbatim>\<open>replace\<close> in the code compute.
  Neither token remains in the result, and every other placeholder \<^verbatim>\<open>{name}\<close> stays
  where it is: the rewrite of the text around it does not touch it.
\<close>

theorem url_placeholders_rewritten:
  assumes "distinct (map fst d)" and "map_of d ''url'' = Some (JStr u)"
    and "pythonize_data attributions d = Inr d'"
  shows "map_of d' ''url'' = Some (JStr (rewrite_placeholders u))
         \<and> pythonize_item attributions (''url'', JStr u) = Inr (''url'', JStr (rewrite_placeholders u))
         \<and> rewrite_placeholders u = replace ''{minZoom}'' ''{min_zoom}'' (replace ''{maxZoom}'' ''{max_zoom}'' u)
         \<and> \<not> sublist ''{maxZoom}'' (rewrite_placeholders u)
         \<and> \<not> sublist ''{minZoom}'' (rewrite_placeholders u)
         \<and> (\<forall>name l r. brace_free name \<longrightarrow> name \<noteq> ''maxZoom'' \<longrightarrow> name \<noteq> ''minZoom'' \<longrightarrow>
               rewrite_placeholders (l @ token name @ r) =
               rewrite_placeholders l @ token name @ rewrite_placeholders r)"
proof -
  from assms(2) have ind: "(''url'', JStr u) \<in> set d" by (rule map_of_SomeD)
  have ck: "canonical_key ''url'' = ''url''" by (simp add: canonical_key_def rename_keys_def)
  from ind have "''url'' \<in> fst ` set d" by (rule image_eqI[rotated]) simp
  then have "canonical_key ''url'' \<in> canonical_key ` fst ` set d" by (rule imageI)
  then have "''url'' \<in> fst ` set d'"
    unfolding pythonize_data_keys[OF assms(3)] ck .
  then obtain x where x: "(''url'', x) \<in> set d'" by auto
  with pythonize_data_items[OF assms(3)] obtain k v where
    kv: "(k, v) \<in> set d" and item: "pythonize_item attributions (k, v) = Inr (''url'', x)" by force
  from pythonize_item_key[OF item] have "k = ''url''"
    by (auto simp: canonical_key_def rename_keys_def split: if_splits)
  with kv assms(1,2) have "v = JStr u" by (metis map_of_is_SomeI option.inject)
  with item \<open>k = ''url''\<close> pythonize_item_url[of attributions u] have "x = JStr (rewrite_placeholders u)"
    by simp
  with x pythonize_data_distinct[OF assms(3)]
  have "map_of d' ''url'' = Some (JStr (rewrite_placeholders u))" by simp
  with pythonize_item_url[of attributions u] rewrite_no_tokens[of u] rewrite_keeps_token
    replace_twice_rewrite[of u]
  show ?thesis by simp
qed

theorem url_placeholders_rewritten_witness:
  "distinct (map fst c7_record)
   \<and> map_of c7_record ''url'' =
       Some (JStr ''https://gibs/{variant}/{maxZoom}/{z}/{y}/{x}.{format}?min={minZoom}'')
   \<and> pythonize_data (named_table c2_entries) c7_record =
       Inr [(''url'', JStr ''https://gibs/{variant}/{max_zoom}/{z}/{y}/{x}.{format}?min={min_zoom}''),
            (''max_zoom'', JNum 9)]
   \<and> rewrite_placeholders ''https://gibs/{variant}/{maxZoom}/{z}/{y}/{x}.{format}?min={minZoom}''
       = ''https://gibs/{variant}/{max_zoom}/{z}/{y}/{x}.{format}?min={min_zoom}''
   \<and> map_of [(''url'', JStr ''https://gibs/{variant}/{max_zoom}/{z}/{y}/{x}.{format}?min={min_zoom}''),
              (''max_zoom'', JNum 9)] ''url''
       = Some (JStr (rewrite_placeholders
                       ''https://gibs/{variant}/{maxZoom}/{z}/{y}/{x}.{format}?min={minZoom}''))"
proof -
  have h1: "distinct (map fst c7_record)" by (simp add: c7_record_def)
  have h2: "map_of c7_record ''url'' =
       Some (JStr ''https://gibs/{variant}/{maxZoom}/{z}/{y}/{x}.{format}?min={minZoom}'')"
    by (simp add: c7_record_def)
  have h3: "pythonize_data (named_table c2_entries) c7_record =
       Inr [(''url'', JStr ''https://gibs/{variant}/{max_zoom}/{z}/{y}/{x}.{format}?min={min_zoom}''),
            (''max_zoom'', JNum 9)]"
    by code_simp
  have e: "rewrite_placeholders ''https://gibs/{variant}/{maxZoom}/{z}/{y}/{x}.{format}?min={minZoom}''
       = ''https://gibs/{variant}/{max_zoom}/{z}/{y}/{x}.{format}?min={min_zoom}''"
    by code_simp
  from url_placeholders_rewritten[OF h1 h2 h3] h1 h2 h3 e show ?thesis by blast
qed

section \<open>The records of a normalized catalog\<close>

text \<open>
  Claim C8 as stated fails: nothing in the code adds or requires a \<open>url\<close>. A provider
  entry without a url, here that of \<open>Esri\<close>, is normalized to a record without one.
\<close>

theorem normalized_records_counterexample:
  "process_data c8_catalog =
     Inr [(''OpenStreetMap'', JObj [(''url'', JStr ''http://tile/{z}/{x}/{y}.png''),
                                    (''attribution'', JStr (CHR 0xA9 # '' OSM'')),
                                    (''name'', JStr ''OpenStreetMap'')]),
          (''Esri'', JObj [(''attribution'', JStr ''Tiles Esri''), (''name'', JStr ''Esri'')]),
          (''OpenMapSurfer'', JObj [(''url'', JStr ''http://oms/{z}/{x}/{y}''),
                                    (''attribution'', JStr ''Imagery GIScience''),
                                    (''name'', JStr ''OpenMapSurfer'')])]"
  by code_simp

text \<open>
  Claim C8, amended. When normalization succeeds, every entry of the result belongs to a
  provider entry of the catalog. For a provider lacking variants the entry is a record
  that contains \<open>name\<close>, whose attribution string, if any, contains no
  \<^verbatim>\<open>{attribution.\<close>, and that contains \<open>url\<close> exactly when the provider's top-level
  fields or options do. For a provider with variants every entry of the group is such a
  record with \<open>name\<close> and resolved attribution, and it contains \<open>url\<close> when the
  provider's top-level fields or options do.
\<close>

theorem normalized_records:
  assumes "process_data data = Inr result" and "(p, x) \<in> set result"
  shows "\<exists>entry options r.
           map_of data p = Some (JObj entry) \<and> map_of entry ''options'' = Some (JObj options)
           \<and> x = JObj r
           \<and> (if lacks_variants entry
               then resolved_record r
                    \<and> (''url'' \<in> fst ` set r \<longleftrightarrow> ''url'' \<in> fst ` set (base_keys entry options))
               else (\<forall>(v, y) \<in> set r. \<exists>record.
                       y = JObj record \<and> resolved_record record
                       \<and> (''url'' \<in> fst ` set (base_keys entry options)
                            \<longrightarrow> ''url'' \<in> fst ` set record)))"
proof -
  from assms(1) obtain attributions where
    pp: "process_providers attributions data data [] = Inr result"
    by (auto simp: process_data_def split: sum.splits)
  from process_providers_out[OF pp] obtain rs where
    all2: "list_all2 (\<lambda>pe r. process_provider attributions data (fst pe) = Inr r) data rs"
    and res: "result = dict_merge [] (zip (map fst data) (map JObj rs))" by blast
  from assms(2) res set_dict_merge_subset[of "[]" "zip (map fst data) (map JObj rs)"]
  have "(p, x) \<in> set (zip (map fst data) (map JObj rs))" by auto
  from in_zip_all2[OF all2 this] obtain r where x: "x = JObj r"
    and r: "process_provider attributions data p = Inr r" by auto
  from r show ?thesis
  proof (cases rule: process_provider_cases)
    case (leaf entry options)
    from record_keys[OF leaf(4)] have "resolved_record r"
      and "''url'' \<in> fst ` set r \<longleftrightarrow> ''url'' \<in> fst ` set (base_keys entry options)"
      by simp_all
    with leaf(1,2,3) x show ?thesis by auto
  next
    case (variants entry options vs)
    let ?pk = "base_keys entry options"
    from variants(3) have nl: "\<not> lacks_variants entry" by (simp add: lacks_variants_def)
    from process_variants_out[OF variants(4)] obtain recs where
      a2: "list_all2 (\<lambda>vv r. process_variant attributions p ?pk (fst vv) (snd vv) = Inr r) vs recs"
      and rr: "r = dict_merge [] (zip (map fst vs) (map JObj recs))" by blast
    have "\<exists>record. y = JObj record \<and> resolved_record record
            \<and> (''url'' \<in> fst ` set ?pk \<longrightarrow> ''url'' \<in> fst ` set record)"
      if vy: "(v, y) \<in> set r" for v y
    proof -
      from vy rr set_dict_merge_subset[of "[]" "zip (map fst vs) (map JObj recs)"]
      have "(v, y) \<in> set (zip (map fst vs) (map JObj recs))" by auto
      from in_zip_all2[OF a2 this] obtain vv rcd where y: "y = JObj rcd"
        and pr: "process_variant attributions p ?pk (fst vv) (snd vv) = Inr rcd" by auto
      from pr obtain vk where
        py: "pythonize_data attributions
               (AList.update ''name'' (JStr (p @ ''.'' @ fst vv)) (dict_merge ?pk vk)) = Inr rcd"
        by (auto simp: process_variant_def split: sum.splits)
      from record_keys[OF py] have "resolved_record rcd"
        and "''url'' \<in> fst ` set rcd \<longleftrightarrow> ''url'' \<in> fst ` set (dict_merge ?pk vk)"
        by simp_all
      with y show ?thesis by (simp add: keys_dict_merge)
    qed
    with variants(1,2) nl x show ?thesis by auto
  next
    case (empty entry options)
    from empty(3) have "\<not> lacks_variants entry" by (simp add: lacks_variants_def)
    with empty(1,2,4) x show ?thesis by auto
  qed
qed

theorem normalized_records_witness:
  "process_data (c1_raw @ c1_others @ [(''Thunder'', JObj c4_entry)]) =
     Inr [(''OpenStreetMap'', JObj c1_record),
          (''Esri'', JObj [(''url'', JStr ''http://esri/{z}/{y}/{x}''),
                           (''attribution'', JStr ''Tiles Esri''),
                           (''name'', JStr ''Esri'')]),
          (''OpenMapSurfer'', JObj [(''url'', JStr ''http://oms/{z}/{x}/{y}''),
                                    (''attribution'', JStr ''Imagery GIScience''),
                                    (''name'', JStr ''OpenMapSurfer'')]),
          (''Thunder'', JObj c4_result)]
   \<and> (\<exists>entry options r.
         map_of (c1_raw @ c1_others @ [(''Thunder'', JObj c4_entry)]) ''Thunder'' = Some (JObj entry)
         \<and> map_of entry ''options'' = Some (JObj options)
         \<and> JObj c4_result = JObj r
         \<and> (if lacks_variants entry
             then resolved_record r
                  \<and> (''url'' \<in> fst ` set r \<longleftrightarrow> ''url'' \<in> fst ` set (base_keys entry options))
             else (\<forall>(v, y) \<in> set r. \<exists>record.
                     y = JObj record \<and> resolved_record record
                     \<and> (''url'' \<in> fst ` set (base_keys entry options)
                          \<longrightarrow> ''url'' \<in> fst ` set record))))"
proof -
  let ?result = "[(''OpenStreetMap'', JObj c1_record),
          (''Esri'', JObj [(''url'', JStr ''http://esri/{z}/{y}/{x}''),
                           (''attribution'', JStr ''Tiles Esri''),
                           (''name'', JStr ''Esri'')]),
          (''OpenMapSurfer'', JObj [(''url'', JStr ''http://oms/{z}/{x}/{y}''),
                                    (''attribution'', JStr ''Imagery GIScience''),
                                    (''name'', JStr ''OpenMapSurfer'')]),
          (''Thunder'', JObj c4_result)]"
  have h1: "process_data (c1_raw @ c1_others @ [(''Thunder'', JObj c4_entry)]) = Inr ?result"
    by code_simp
  have h2: "(''Thunder'', JObj c4_result) \<in> set ?result" by simp
  from normalized_records[OF h1 h2] h1 show ?thesis by blast
qed

section \<open>Deriving a record\<close>

text \<open>
  Claim C9 as stated fails for one name: the method is \<^verbatim>\<open>def __call__(self, **kwargs)\<close>,
  so an override of a field named \<open>self\<close> is not collected in \<^verbatim>\<open>kwargs\<close>; the call raises
  \<^verbatim>\<open>TypeError\<close> and returns no record.
\<close>

theorem TileProvider_call_copy_counterexample:
  "TileProvider_call c9_store 0 c9_self_kwargs = (Inl TypeError, c9_store)"
  by (simp add: TileProvider_call_def c9_self_kwargs_def)

text \<open>
  Claim C9, amended. Calling a rendered record, an object of the store, with keyword
  overrides none of which is named \<open>self\<close> returns a new object, at an address that was
  free before. Its entries are those of the original updated by the overrides: an
  override replaces the value of a key of the original and a new key is added. The
  original object, and every other object that existed before the call, is unchanged.
  With an override named \<open>self\<close> the call raises \<^verbatim>\<open>TypeError\<close>, and the store is as before.
\<close>

theorem TileProvider_call_copy:
  assumes "self < length h" and "distinct (map fst kwargs)"
  shows "(''self'' \<notin> set (map fst kwargs) \<longrightarrow>
            TileProvider_call h self kwargs =
              (Inr (length h), h @ [dict_merge (h ! self) kwargs])
            \<and> (case TileProvider_call h self kwargs of
                 (r, h') \<Rightarrow>
                   (\<exists>new. r = Inr new
                      \<and> new = length h \<and> new \<noteq> self \<and> length h' = Suc (length h)
                      \<and> h' ! new = dict_merge (h ! self) kwargs
                      \<and> map_of (h' ! new) = map_of (h ! self) ++ map_of kwargs
                      \<and> h' ! self = h ! self
                      \<and> take (length h) h' = h)))
         \<and> (''self'' \<in> set (map fst kwargs) \<longrightarrow>
              TileProvider_call h self kwargs = (Inl TypeError, h))"
  using assms
  by (simp add: TileProvider_call_def alloc_def nth_append map_of_dict_merge)

theorem TileProvider_call_copy_witness:
  "(0::nat) < length c9_store \<and> distinct (map fst c9_kwargs)
   \<and> ''self'' \<notin> set (map fst c9_kwargs)
   \<and> TileProvider_call c9_store 0 c9_kwargs =
       (Inr 1, c9_store @ [[(''url'', PStr ''http://tile/{z}/{x}/{y}.png''), (''max_zoom'', PNum 10),
                            (''name'', PStr ''OpenStreetMap''), (''apikey'', PStr ''k'')]])
   \<and> TileProvider_call c9_store 0 c9_kwargs =
       (Inr (length c9_store), c9_store @ [dict_merge (c9_store ! 0) c9_kwargs])
   \<and> (case TileProvider_call c9_store 0 c9_kwargs of
        (r, h') \<Rightarrow>
          (\<exists>new. r = Inr new
             \<and> new = length c9_store \<and> new \<noteq> 0 \<and> length h' = Suc (length c9_store)
             \<and> h' ! new = dict_merge (c9_store ! 0) c9_kwargs
             \<and> map_of (h' ! new) = map_of (c9_store ! 0) ++ map_of c9_kwargs
             \<and> h' ! 0 = c9_store ! 0
             \<and> take (length c9_store) h' = c9_store))
   \<and> distinct (map fst c9_self_kwargs) \<and> ''self'' \<in> set (map fst c9_self_kwargs)
   \<and> TileProvider_call c9_store 0 c9_self_kwargs = (Inl TypeError, c9_store)"
proof -
  have h1: "(0::nat) < length c9_store" by (simp add: c9_store_def)
  have h2: "distinct (map fst c9_kwargs)" by (simp add: c9_kwargs_def)
  have h3: "''self'' \<notin> set (map fst c9_kwargs)" by (simp add: c9_kwargs_def)
  have e: "TileProvider_call c9_store 0 c9_kwargs =
       (Inr 1, c9_store @ [[(''url'', PStr ''http://tile/{z}/{x}/{y}.png''), (''max_zoom'', PNum 10),
                            (''name'', PStr ''OpenStreetMap''), (''apikey'', PStr ''k'')]])"
    by (simp add: TileProvider_call_def alloc_def c9_store_def c9_kwargs_def dict_merge_def)
  have h4: "distinct (map fst c9_self_kwargs)" by (simp add: c9_self_kwargs_def)
  have h5: "''self'' \<in> set (map fst c9_self_kwargs)" by (simp add: c9_self_kwargs_def)
  note t = mp[OF conjunct1[OF TileProvider_call_copy[OF h1 h2]] h3]
  note f = mp[OF conjunct2[OF TileProvider_call_copy[OF h1 h4]] h5]
  show ?thesis by (intro conjI h1 h2 h3 e conjunct1[OF t] conjunct2[OF t] h4 h5 f)
qed

section \<open>Normalization leaves its input alone\<close>

text \<open>
  Claim C10. Whatever \<open>process_data\<close> returns, a result or an error, the store after the
  call is the store before the call followed by new objects: the catalog, every
  provider entry, every options sub-mapping and every variant definition are objects of
  the store before the call and are unchanged. Every \<^verbatim>\<open>pop\<close> and every assignment of the
  code is applied to an object that the call itself has made (a copy, a merge or the
  result dict).
\<close>

theorem process_data_frame:
  "prefix h (snd (st_process_data h data))
   \<and> (\<forall>a < length h. snd (st_process_data h data) ! a = h ! a)"
proof -
  have p: "prefix h (snd (st_process_data h data))"
    by (auto simp: st_process_data_def alloc_def split: sum.splits
        intro!: st_process_providers_frame)
  then obtain fresh where "snd (st_process_data h data) = h @ fresh" by (auto simp: prefix_def)
  then have "\<forall>a < length h. snd (st_process_data h data) ! a = h ! a" by (simp add: nth_append)
  with p show ?thesis by simp
qed

text \<open>
  An instance: the store with a catalog of four providers. The result is a new object,
  the twelve objects of the catalog are as before, and the value that the result stands
  for is the one that the first model computes from the value of the catalog.
\<close>

theorem process_data_frame_witness:
  "json_of 5 c10_store (PRef 0) = JObj (c1_raw @ c1_others @ [(''Thunder'', JObj c4_entry)])
   \<and> fst (st_process_data c10_store 0) = Inr 12
   \<and> length (snd (st_process_data c10_store 0)) = 33
   \<and> prefix c10_store (snd (st_process_data c10_store 0))
   \<and> take 12 (snd (st_process_data c10_store 0)) = c10_store
   \<and> Inr (json_of 3 (snd (st_process_data c10_store 0)) (PRef 12)) =
       map_sum id JObj (process_data (c1_raw @ c1_others @ [(''Thunder'', JObj c4_entry)]))"
proof -
  have a: "json_of 5 c10_store (PRef 0) = JObj (c1_raw @ c1_others @ [(''Thunder'', JObj c4_entry)])"
    by code_simp
  have b: "fst (st_process_data c10_store 0) = Inr 12" by code_simp
  have c: "length (snd (st_process_data c10_store 0)) = 33" by code_simp
  have d: "take 12 (snd (st_process_data c10_store 0)) = c10_store" by code_simp
  have e: "Inr (json_of 3 (snd (st_process_data c10_store 0)) (PRef 12)) =
       map_sum id JObj (process_data (c1_raw @ c1_others @ [(''Thunder'', JObj c4_entry)]))"
    by code_simp
  from process_data_frame[of c10_store 0] a b c d e show ?thesis by blast
qed

end
